(* ===== verification/Prelude.thy ===== *)
theory Prelude
  imports Main "HOL-Library.Sublist" "HOL-Library.AList"
begin

text \<open>
  Shared vocabulary of the development: the Python exceptions the data layer can raise
  (\<open>exc\<close>), the state-and-exception result type every operation of
  \<^verbatim>\<open>src/gsheets_io.py\<close> returns, with its \<open>return\<close>, \<open>raise\<close> and \<open>bind\<close>, and the
  Python string operations the code uses (\<open>in\<close> on strings, \<open>str.replace\<close>,
  \<open>str.lower\<close>), each with its characterisation against the library's reference
  notion.
\<close>

named_theorems model_simps "unfolding rules of the model's operations"

section \<open>Exceptions and the result type\<close>

text \<open>
  The exceptions that reach the code: gspread's \<open>APIError\<close> with the HTTP status
  code read from \<open>e.response.status_code\<close> (\<open>None\<close> where reading it raises) and
  its message \<open>str(e)\<close>; the \<open>RuntimeError\<close> of a missing credential; Python's
  \<open>IndexError\<close> and \<open>KeyError\<close>; \<open>TypeError\<close> (\<open>raise None\<close>); and the
  gspread errors that are not \<open>APIError\<close> (\<open>SpreadsheetNotFound\<close>); and
  Streamlit's error for a widget key used twice in one run of the script
  (\<open>DuplicateWidgetKey\<close>, \<open>StreamlitDuplicateElementKey\<close>), carrying the key; and
  \<open>re.error\<close> of a malformed regular expression (\<open>ReError\<close>), carrying its message.
\<close>

datatype exc =
    APIError "int option" string
  | RuntimeError string
  | IndexError
  | KeyError string
  | TypeError
  | SpreadsheetNotFound string
  | DuplicateWidgetKey string
  | ReError string

type_synonym ('a, 's) st = "'s \<Rightarrow> (exc + 'a) \<times> 's"

definition rreturn :: "'a \<Rightarrow> ('a, 's) st" where
  "rreturn a s = (Inr a, s)"

definition rraise :: "exc \<Rightarrow> ('a, 's) st" where
  "rraise e s = (Inl e, s)"

definition rbind :: "('a, 's) st \<Rightarrow> ('a \<Rightarrow> ('b, 's) st) \<Rightarrow> ('b, 's) st" where
  "rbind m f s = (case m s of (Inl e, s') \<Rightarrow> (Inl e, s') | (Inr a, s') \<Rightarrow> f a s')"

text \<open>A sequence of operations run one after another, stopping at the first
  exception: the order in which a session issues its calls.\<close>

fun seq_st :: "('a, 's) st list \<Rightarrow> (unit, 's) st" where
  "seq_st [] = rreturn ()"
| "seq_st (m # ms) = rbind m (\<lambda>_. seq_st ms)"

text \<open>Frame conditions: an operation that never changes the projection \<open>p\<close> of the
  state.  The closure rules are collected in \<open>frame_rules\<close>.\<close>

named_theorems frame_rules "closure rules of keeps"

definition keeps :: "('s \<Rightarrow> 'b) \<Rightarrow> ('a, 's) st \<Rightarrow> bool" where
  "keeps p f \<longleftrightarrow> (\<forall>s. p (snd (f s)) = p s)"

section \<open>Python strings\<close>

text \<open>\<open>s.startswith(p)\<close>, and \<open>n in s\<close> on strings.\<close>

fun starts_with :: "string \<Rightarrow> string \<Rightarrow> bool" where
  "starts_with [] s = True"
| "starts_with (c # cs) [] = False"
| "starts_with (c # cs) (d # ds) = (c = d \<and> starts_with cs ds)"

fun contains :: "string \<Rightarrow> string \<Rightarrow> bool" where
  "contains n [] = (n = [])"
| "contains n (c # cs) = (starts_with n (c # cs) \<or> contains n cs)"

text \<open>
  \<open>s.replace(old, new)\<close>: left to right, non-overlapping; with an empty \<open>old\<close>
  Python inserts \<open>new\<close> around every character.
\<close>

function replace_all :: "string \<Rightarrow> string \<Rightarrow> string \<Rightarrow> string" where
  "replace_all old new [] = (if old = [] then new else [])"
| "replace_all old new (c # cs) =
     (if old = [] then new @ c # replace_all old new cs
      else if starts_with old (c # cs)
        then new @ replace_all old new (drop (length old) (c # cs))
      else c # replace_all old new cs)"
  by pat_completeness auto
termination
  by (relation "measure (\<lambda>(_, _, s). length s)") auto

text \<open>\<open>str.lower()\<close> on the ASCII letters (the strings the code lowers are ASCII).\<close>

definition lower_char :: "char \<Rightarrow> char" where
  "lower_char c =
     (case map_of (zip ''ABCDEFGHIJKLMNOPQRSTUVWXYZ'' ''abcdefghijklmnopqrstuvwxyz'') c of
        Some l \<Rightarrow> l
      | None \<Rightarrow> c)"

definition lower :: "string \<Rightarrow> string" where
  "lower s = map lower_char s"

section \<open>Lemmas on the result type and frames\<close>

lemma rbind_Inl [simp]: "m s = (Inl e, s') \<Longrightarrow> rbind m f s = (Inl e, s')"
  by (simp add: rbind_def)

lemma rbind_Inr [simp]: "m s = (Inr a, s') \<Longrightarrow> rbind m f s = f a s'"
  by (simp add: rbind_def)

lemma rbind_rreturn [simp]: "rbind (rreturn a) f = f a"
  by (simp add: rbind_def rreturn_def fun_eq_iff)

lemma rbind_rraise [simp]: "rbind (rraise e) f = rraise e"
  by (simp add: rbind_def rraise_def fun_eq_iff)

lemma rreturn_apply [simp]: "rreturn a s = (Inr a, s)"
  and rraise_apply [simp]: "rraise e s = (Inl e, s)"
  by (simp_all add: rreturn_def rraise_def)

lemma rbind_cases:
  assumes "rbind m f s = (r, s')"
  obtains (fail) e where "m s = (Inl e, s')" "r = Inl e"
    | (ok) a s1 where "m s = (Inr a, s1)" "f a s1 = (r, s')"
  using assms by (cases "m s" rule: prod.exhaust) (auto simp: rbind_def split: sum.splits)

lemma keepsD: "keeps p f \<Longrightarrow> f s = (r, s') \<Longrightarrow> p s' = p s"
  unfolding keeps_def by (metis snd_conv)

lemma keeps_rreturn [frame_rules]: "keeps p (rreturn a)"
  and keeps_rraise [frame_rules]: "keeps p (rraise e)"
  by (simp_all add: keeps_def)

lemma keeps_rbind [frame_rules]:
  assumes "keeps p m" "\<And>a. keeps p (f a)"
  shows "keeps p (rbind m f)"
  unfolding keeps_def
proof
  fix s
  obtain r s1 where m: "m s = (r, s1)" by fastforce
  have s1: "p s1 = p s" using keepsD [OF assms(1) m] .
  show "p (snd (rbind m f s)) = p s"
  proof (cases r)
    case (Inl e)
    with m s1 show ?thesis by simp
  next
    case (Inr a)
    with m s1 assms(2) [of a] show ?thesis by (simp add: keeps_def)
  qed
qed

lemma keeps_case_option [frame_rules]:
  "keeps p f \<Longrightarrow> (\<And>a. keeps p (g a)) \<Longrightarrow> keeps p (case x of None \<Rightarrow> f | Some a \<Rightarrow> g a)"
  by (cases x) auto

lemma keeps_case_sum [frame_rules]:
  "(\<And>e. keeps p (f e)) \<Longrightarrow> (\<And>a. keeps p (g a)) \<Longrightarrow> keeps p (case y of Inl e \<Rightarrow> f e | Inr a \<Rightarrow> g a)"
  by (cases y) auto

lemma keeps_if [frame_rules]: "keeps p f \<Longrightarrow> keeps p g \<Longrightarrow> keeps p (if b then f else g)"
  by simp

section \<open>Lemmas on strings\<close>

lemma starts_with_prefix [simp]: "starts_with p s \<longleftrightarrow> prefix p s"
  by (induction p s rule: starts_with.induct) auto

lemma contains_sublist: "contains n s \<longleftrightarrow> sublist n s"
  by (induction s) (simp_all add: sublist_Cons_right)

lemma replace_all_absent: "old \<noteq> [] \<Longrightarrow> \<not> contains old s \<Longrightarrow> replace_all old new s = s"
proof (induction old new s rule: replace_all.induct)
  case (2 old new c cs)
  then show ?case by (auto simp: contains_sublist sublist_Cons_right)
qed simp

lemma lower_length [simp]: "length (lower s) = length s"
  by (simp add: lower_def)

section \<open>Association lists\<close>

text \<open>In \<open>map_of (rev _)\<close> the last pair of a key wins; replacing the last pair of
  key \<open>k\<close> updates the map at \<open>k\<close> only.\<close>

lemma map_of_rev_map_update:
  assumes "p < length xs" "fst (f (xs ! p)) = k" "fst (f x) = k"
    "\<forall>q. p < q \<and> q < length xs \<longrightarrow> fst (f (xs ! q)) \<noteq> k"
  shows "map_of (rev (map f (xs[p := x]))) = (map_of (rev (map f xs)))(k \<mapsto> snd (f x))"
proof -
  let ?A = "take p xs" and ?B = "drop (Suc p) xs"
  have xs: "xs = ?A @ xs ! p # ?B" using assms(1) by (rule id_take_nth_drop)
  have upd: "xs[p := x] = ?A @ x # ?B" using assms(1) by (rule upd_conv_take_nth_drop)
  have B: "map_of (rev (map f ?B)) k = None"
  proof -
    have "\<forall>y \<in> set ?B. fst (f y) \<noteq> k"
    proof
      fix y assume "y \<in> set ?B"
      then obtain i where "i < length ?B" "?B ! i = y" by (auto simp: in_set_conv_nth)
      then show "fst (f y) \<noteq> k" using assms(4) [rule_format, of "Suc p + i"] by auto
    qed
    then show ?thesis by (auto simp: map_of_eq_None_iff)
  qed
  show ?thesis
  proof
    fix y
    show "map_of (rev (map f (xs[p := x]))) y = ((map_of (rev (map f xs)))(k \<mapsto> snd (f x))) y"
      using B assms(2,3)
      by (subst upd, subst (2) xs) (auto simp: map_add_def prod_eq_iff split: option.splits)
  qed
qed


text \<open>Replacing a pair of key \<open>k\<close> that a later pair of key \<open>k\<close> shadows changes nothing.\<close>

lemma map_of_rev_map_update_shadowed:
  assumes "p < q" "q < length xs" "fst (f (xs ! q)) = k" "fst (f x) = k" "fst (f (xs ! p)) = k"
  shows "map_of (rev (map f (xs[p := x]))) = map_of (rev (map f xs))"
proof -
  let ?A = "take p xs" and ?B = "drop (Suc p) xs"
  have p: "p < length xs" using assms(1,2) by simp
  have xs: "xs = ?A @ xs ! p # ?B" using id_take_nth_drop [OF p] .
  have upd: "xs[p := x] = ?A @ x # ?B" using upd_conv_take_nth_drop [OF p] .
  have "xs ! q \<in> set ?B" using assms(1,2) by (auto simp: in_set_conv_nth intro!: exI [of _ "q - Suc p"])
  then have "map_of (rev (map f ?B)) k \<noteq> None"
    using assms(3) by (auto simp: map_of_eq_None_iff image_iff intro!: bexI [of _ "xs ! q"])
  then obtain v where v: "map_of (rev (map f ?B)) k = Some v" by blast
  show ?thesis
  proof
    fix y
    show "map_of (rev (map f (xs[p := x]))) y = map_of (rev (map f xs)) y"
      using v assms(4,5)
      by (subst upd, subst (2) xs) (cases "y = k"; simp add: map_add_def split: option.splits)
  qed
qed

end
