(* ===== verification/Remote.thy ===== *)
theory Remote
  imports Prelude
begin

text \<open>
  The world the data layer of \<^verbatim>\<open>src/gsheets_io.py\<close> runs in, as one state record:
  the configuration it reads (\<open>st.secrets\<close>, the environment, the file system), the
  remote Google Sheets store (spreadsheets holding named worksheets of string cells),
  the environment of the process (a fault schedule for remote calls, the log of remote
  calls issued, the clock in milliseconds, the log of \<open>time.sleep\<close> calls) and the
  Streamlit caches of the process (the \<open>@st.cache_resource\<close> memo tables and the
  \<open>@st.cache_data\<close> table).  The gspread operations the code calls are modelled here
  from their documented behaviour: each is one remote call that consumes one entry of
  the fault schedule (\<open>Some e\<close>: the call fails with \<open>e\<close> and has no effect) and
  otherwise performs its effect on the store.
\<close>

section \<open>Configuration and credentials\<close>

record config =
  secret_svc :: "(string \<times> string) list option"  \<comment> \<open>\<open>st.secrets.get("gcp_service_account")\<close>\<close>
  env_cred_path :: "string option"                \<comment> \<open>\<open>os.getenv("GOOGLE_APPLICATION_CREDENTIALS")\<close>\<close>
  existing_files :: "string list"                 \<comment> \<open>paths for which \<open>os.path.exists\<close> holds\<close>

datatype credential = ServiceInfo "(string \<times> string) list" | ServiceFile string

datatype client = Authorized credential

section \<open>The remote store\<close>

record tab =
  tab_title :: string
  tab_rows :: nat
  tab_cols :: nat
  tab_grid :: "string list list"

text \<open>A \<open>gspread.Worksheet\<close> handle: the spreadsheet it lives in and its title
  (titles are unique inside a spreadsheet).\<close>

record ws =
  ws_sheet :: string
  ws_title :: string

datatype spreadsheet = Spreadsheet string

datatype api_call =
    OpenByKey string
  | ListWorksheets string
  | AddWorksheet string string nat nat
  | Update ws string "string list list"
  | Clear ws
  | GetAllValues ws
  | AppendRow ws "string list"
  | UpdateCell ws nat nat string

text \<open>A \<open>pandas.DataFrame\<close> built from a sheet: its column labels and its data rows.\<close>

record frame =
  frame_cols :: "string list"
  frame_rows :: "string list list"

record world =
  cfg :: config
  book :: "string \<rightharpoonup> tab list"
  faults :: "exc option list"
  calls :: "api_call list"
  clock :: nat
  sleeps :: "nat list"
  client_cache :: "client option"
  sheet_cache :: "string \<rightharpoonup> spreadsheet"
  wsmap_cache :: "string \<rightharpoonup> (string \<rightharpoonup> ws)"
  data_cache :: "string \<times> string \<rightharpoonup> frame \<times> nat"

section \<open>Grids\<close>

definition find_tab :: "string \<Rightarrow> tab list \<Rightarrow> tab option" where
  "find_tab name tabs = find (\<lambda>t. tab_title t = name) tabs"

definition map_tab :: "string \<Rightarrow> (tab \<Rightarrow> tab) \<Rightarrow> tab list \<Rightarrow> tab list" where
  "map_tab name f tabs = map (\<lambda>t. if tab_title t = name then f t else t) tabs"

text \<open>\<open>ws.update('A1', values)\<close>: row \<open>i\<close> of the values overwrites the first cells of
  row \<open>i\<close> of the sheet, the sheet growing where it is shorter.\<close>

fun write_rows :: "string list list \<Rightarrow> string list list \<Rightarrow> string list list" where
  "write_rows [] g = g"
| "write_rows (v # vs) [] = v # write_rows vs []"
| "write_rows (v # vs) (r # rs) = (v @ drop (length v) r) # write_rows vs rs"

text \<open>\<open>ws.update_cell(row, col, value)\<close> at zero-based position \<open>(i, j)\<close>.\<close>

definition set_cell :: "string list list \<Rightarrow> nat \<Rightarrow> nat \<Rightarrow> string \<Rightarrow> string list list" where
  "set_cell g i j v =
     (let g' = g @ replicate (Suc i - length g) [];
          r = g' ! i;
          r' = r @ replicate (Suc j - length r) ''''
      in g'[i := r'[j := v]])"

text \<open>The values the Sheets API reports for a range omit the trailing empty cells of
  each row and the trailing empty rows; gspread's \<open>fill_gaps\<close> then pads every row
  to the widest, so \<open>get_all_values\<close> returns \<open>sheet_values\<close> of the grid.\<close>

definition trim_row :: "string list \<Rightarrow> string list" where
  "trim_row r = rev (dropWhile (\<lambda>c. c = []) (rev r))"

definition api_values :: "string list list \<Rightarrow> string list list" where
  "api_values g = rev (dropWhile (\<lambda>r. r = []) (rev (map trim_row g)))"

definition pad_to :: "nat \<Rightarrow> string list \<Rightarrow> string list" where
  "pad_to n r = r @ replicate (n - length r) []"

definition fill_gaps :: "string list list \<Rightarrow> string list list" where
  "fill_gaps g = (let n = fold max (map length g) 0 in map (pad_to n) g)"

definition sheet_values :: "string list list \<Rightarrow> string list list" where
  "sheet_values g = fill_gaps (api_values g)"

text \<open>\<open>update_cell\<close> sends its value with \<open>USER_ENTERED\<close>: the sheet parses the words
  true and false as booleans and shows them as \<open>TRUE\<close> and \<open>FALSE\<close>.\<close>

definition user_entered :: "string \<Rightarrow> string" where
  "user_entered v =
     (if lower v = ''true'' then ''TRUE'' else if lower v = ''false'' then ''FALSE'' else v)"

section \<open>Remote calls\<close>

definition remote_call :: "api_call \<Rightarrow> ('a, world) st \<Rightarrow> ('a, world) st" where
  "remote_call c eff w =
     (let w1 = w\<lparr>calls := calls w @ [c]\<rparr> in
      case faults w1 of
        [] \<Rightarrow> eff w1
      | Some e # fs \<Rightarrow> (Inl e, w1\<lparr>faults := fs\<rparr>)
      | None # fs \<Rightarrow> eff (w1\<lparr>faults := fs\<rparr>))"

definition lookup_ws :: "world \<Rightarrow> ws \<Rightarrow> tab option" where
  "lookup_ws w h = (case book w (ws_sheet h) of None \<Rightarrow> None | Some tabs \<Rightarrow> find_tab (ws_title h) tabs)"

definition modify_grid :: "ws \<Rightarrow> (string list list \<Rightarrow> string list list) \<Rightarrow> world \<Rightarrow> world" where
  "modify_grid h f w =
     (case book w (ws_sheet h) of
        None \<Rightarrow> w
      | Some tabs \<Rightarrow>
          w\<lparr>book := (book w)(ws_sheet h \<mapsto> map_tab (ws_title h) (\<lambda>t. t\<lparr>tab_grid := f (tab_grid t)\<rparr>) tabs)\<rparr>)"

definition range_error :: exc where
  "range_error = APIError (Some 400) ''Unable to parse range''"

text \<open>A grid operation of a worksheet handle: fails where the worksheet is gone.\<close>

definition grid_op :: "api_call \<Rightarrow> ws \<Rightarrow> (string list list \<Rightarrow> string list list) \<Rightarrow> (unit, world) st" where
  "grid_op c h f = remote_call c (\<lambda>w.
     (case lookup_ws w h of None \<Rightarrow> (Inl range_error, w) | Some _ \<Rightarrow> (Inr (), modify_grid h f w)))"

definition gs_open_by_key :: "client \<Rightarrow> string \<Rightarrow> (spreadsheet, world) st" where
  "gs_open_by_key gc key = remote_call (OpenByKey key) (\<lambda>w.
     (if book w key = None then (Inl (SpreadsheetNotFound key), w) else (Inr (Spreadsheet key), w)))"

definition gs_worksheets :: "spreadsheet \<Rightarrow> (ws list, world) st" where
  "gs_worksheets sh = (case sh of Spreadsheet key \<Rightarrow> remote_call (ListWorksheets key) (\<lambda>w.
     (case book w key of
        None \<Rightarrow> (Inl (SpreadsheetNotFound key), w)
      | Some tabs \<Rightarrow> (Inr (map (\<lambda>t. \<lparr>ws_sheet = key, ws_title = tab_title t\<rparr>) tabs), w))))"

definition sheet_exists_error :: "string \<Rightarrow> exc" where
  "sheet_exists_error name =
     APIError (Some 400) (''A sheet with the name '' @ name @ '' already exists.'')"

definition gs_add_worksheet :: "spreadsheet \<Rightarrow> string \<Rightarrow> nat \<Rightarrow> nat \<Rightarrow> (ws, world) st" where
  "gs_add_worksheet sh name r c = (case sh of Spreadsheet key \<Rightarrow>
     remote_call (AddWorksheet key name r c) (\<lambda>w.
       (case book w key of
          None \<Rightarrow> (Inl (SpreadsheetNotFound key), w)
        | Some tabs \<Rightarrow>
            if find_tab name tabs \<noteq> None then (Inl (sheet_exists_error name), w)
            else (Inr \<lparr>ws_sheet = key, ws_title = name\<rparr>,
                  w\<lparr>book := (book w)(key \<mapsto> tabs @ [\<lparr>tab_title = name, tab_rows = r,
                                                      tab_cols = c, tab_grid = []\<rparr>])\<rparr>))))"

definition gs_update :: "ws \<Rightarrow> string \<Rightarrow> string list list \<Rightarrow> (unit, world) st" where
  "gs_update h rng vals = grid_op (Update h rng vals) h (write_rows vals)"

definition gs_clear :: "ws \<Rightarrow> (unit, world) st" where
  "gs_clear h = grid_op (Clear h) h (\<lambda>_. [])"

definition gs_append_row :: "ws \<Rightarrow> string list \<Rightarrow> (unit, world) st" where
  "gs_append_row h row = grid_op (AppendRow h row) h (\<lambda>g. g @ [row])"

definition gs_update_cell :: "ws \<Rightarrow> nat \<Rightarrow> nat \<Rightarrow> string \<Rightarrow> (unit, world) st" where
  "gs_update_cell h i j v =
     (if i = 0 \<or> j = 0 then remote_call (UpdateCell h i j v) (rraise range_error)
      else grid_op (UpdateCell h i j v) h (\<lambda>g. set_cell g (i - 1) (j - 1) (user_entered v)))"

definition gs_get_all_values :: "ws \<Rightarrow> (string list list, world) st" where
  "gs_get_all_values h = remote_call (GetAllValues h) (\<lambda>w.
     (case lookup_ws w h of None \<Rightarrow> (Inl range_error, w) | Some t \<Rightarrow> (Inr (sheet_values (tab_grid t)), w)))"

definition init_world :: "config \<Rightarrow> (string \<rightharpoonup> tab list) \<Rightarrow> world" where
  "init_world c b =
     \<lparr>cfg = c, book = b, faults = [], calls = [], clock = 0, sleeps = [],
      client_cache = None, sheet_cache = Map.empty, wsmap_cache = Map.empty,
      data_cache = Map.empty\<rparr>"

text \<open>A small world for the witnesses: a spreadsheet \<open>s1\<close> holding a \<open>ReadStatus\<close>
  worksheet with its header, and a credential file named by the environment.\<close>

definition example_config :: config where
  "example_config = \<lparr>secret_svc = None, env_cred_path = Some ''/run/creds.json'',
                       existing_files = [''/run/creds.json'']\<rparr>"

definition example_tab :: tab where
  "example_tab = \<lparr>tab_title = ''ReadStatus'', tab_rows = 2000, tab_cols = 26,
                    tab_grid = [[''ItemKey'', ''Read'']]\<rparr>"

definition example_world :: world where
  "example_world = init_world example_config [''s1'' \<mapsto> [example_tab]]"

definition example_ws :: ws where
  "example_ws = \<lparr>ws_sheet = ''s1'', ws_title = ''ReadStatus''\<rparr>"

text \<open>Projections of the world that remote calls, the store and the clock leave alone:
  the configuration and the process caches.\<close>

definition env_indep :: "(world \<Rightarrow> 'b) \<Rightarrow> bool" where
  "env_indep p \<longleftrightarrow> (\<forall>w x. p (w\<lparr>calls := x\<rparr>) = p w) \<and> (\<forall>w x. p (w\<lparr>faults := x\<rparr>) = p w)
     \<and> (\<forall>w x. p (w\<lparr>book := x\<rparr>) = p w) \<and> (\<forall>w x. p (w\<lparr>clock := x\<rparr>) = p w)
     \<and> (\<forall>w x. p (w\<lparr>sleeps := x\<rparr>) = p w)"

section \<open>Lemmas\<close>

lemmas sheet_values_simps = sheet_values_def api_values_def trim_row_def fill_gaps_def pad_to_def

lemmas gs_ops_defs = gs_update_def gs_clear_def gs_append_row_def gs_update_cell_def
  gs_get_all_values_def grid_op_def

lemmas example_defs = example_world_def example_config_def example_tab_def example_ws_def
  init_world_def

lemma modify_grid_env [simp]:
  "calls (modify_grid h f w) = calls w" "sleeps (modify_grid h f w) = sleeps w"
  "clock (modify_grid h f w) = clock w" "faults (modify_grid h f w) = faults w"
  "cfg (modify_grid h f w) = cfg w" "client_cache (modify_grid h f w) = client_cache w"
  "sheet_cache (modify_grid h f w) = sheet_cache w" "wsmap_cache (modify_grid h f w) = wsmap_cache w"
  "data_cache (modify_grid h f w) = data_cache w"
  by (simp_all add: modify_grid_def split: option.splits)

lemma fold_max_ge: "(x::nat) \<le> a \<or> x \<in> set xs \<Longrightarrow> x \<le> fold max xs a"
proof (induction xs arbitrary: a)
  case (Cons y ys)
  from Cons.prems have "x \<le> max y a \<or> x \<in> set ys" by auto
  then show ?case by (simp add: Cons.IH)
qed simp

lemma length_pad_to [simp]: "length (pad_to n r) = max n (length r)"
  by (simp add: pad_to_def)

lemma api_values_last:
  assumes "api_values g \<noteq> []"
  shows "last (api_values g) \<noteq> []"
proof -
  let ?D = "dropWhile (\<lambda>r. r = []) (rev (map trim_row g))"
  have "?D \<noteq> []" using assms unfolding api_values_def by simp
  then have "hd ?D \<noteq> []" using hd_dropWhile [of "\<lambda>r. r = []"] by blast
  then show ?thesis by (simp add: api_values_def last_rev)
qed

lemma sheet_values_rows: "r \<in> set (sheet_values g) \<Longrightarrow> r \<noteq> []"
proof -
  assume r: "r \<in> set (sheet_values g)"
  let ?A = "api_values g"
  let ?n = "fold max (map length ?A) 0"
  from r obtain a where a: "a \<in> set ?A" "r = pad_to ?n a"
    by (auto simp: sheet_values_def fill_gaps_def)
  then have ne: "?A \<noteq> []" by auto
  then have "last ?A \<noteq> []" by (rule api_values_last)
  moreover have "length (last ?A) \<le> ?n"
    using ne by (intro fold_max_ge) simp
  ultimately have "1 \<le> ?n" by (cases "last ?A") auto
  with a(2) show "r \<noteq> []" by (auto simp: pad_to_def)
qed

lemma length_sheet_values: "length (sheet_values g) \<le> length g"
  using length_dropWhile_le [of "\<lambda>r. r = []" "rev (map trim_row g)"]
  by (simp add: sheet_values_def fill_gaps_def api_values_def)
lemma env_indep_caches [simp]:
  "env_indep data_cache" "env_indep wsmap_cache" "env_indep sheet_cache" "env_indep client_cache"
  "env_indep cfg"
  by (simp_all add: env_indep_def)

lemma trim_row_id: "r \<noteq> [] \<Longrightarrow> last r \<noteq> [] \<Longrightarrow> trim_row r = r"
  by (cases r rule: rev_cases) (simp_all add: trim_row_def)

lemma write_rows_Nil [simp]: "write_rows vs [] = vs"
  by (induction vs) simp_all

lemma trim_row_snoc: "trim_row (xs @ [x]) = (if x = [] then trim_row xs else xs @ [x])"
  by (simp add: trim_row_def)

lemma length_trim_row: "length (trim_row r) \<le> length r"
  using length_dropWhile_le [of "\<lambda>c. c = []" "rev r"] by (simp add: trim_row_def)

text \<open>Trimming a row and padding it back to its length gives the row.\<close>

lemma trim_row_pad: "pad_to (length r) (trim_row r) = r"
proof (induction r rule: rev_induct)
  case (snoc x xs)
  have "length (trim_row xs) \<le> length xs" by (rule length_trim_row)
  then have "Suc (length xs) - length (trim_row xs) = Suc (length xs - length (trim_row xs))" by simp
  with snoc show ?case
    by (simp add: trim_row_snoc pad_to_def replicate_append_same [symmetric])
qed (simp add: trim_row_def pad_to_def)

lemma fold_max_le: "(a::nat) \<le> n \<Longrightarrow> \<forall>x \<in> set xs. x \<le> n \<Longrightarrow> fold max xs a \<le> n"
  by (induction xs arbitrary: a) simp_all

text \<open>Every row that \<open>get_all_values\<close> returns has the same length.\<close>

lemma sheet_values_width:
  "r \<in> set (sheet_values g) \<Longrightarrow> length r = fold max (map length (api_values g)) 0"
proof -
  assume "r \<in> set (sheet_values g)"
  then obtain a where a: "a \<in> set (api_values g)" "r = pad_to (fold max (map length (api_values g)) 0) a"
    by (auto simp: sheet_values_def fill_gaps_def)
  have "length a \<le> fold max (map length (api_values g)) 0"
    using a(1) by (intro fold_max_ge) simp
  with a(2) show ?thesis by simp
qed

text \<open>A rectangular grid whose first row ends in a non-empty cell and whose last row
  has a non-empty cell is read back unchanged.\<close>

lemma sheet_values_rect:
  assumes "g \<noteq> []" "\<forall>r \<in> set g. length r = length (hd g)" "last (hd g) \<noteq> []" "hd g \<noteq> []"
    "trim_row (last g) \<noteq> []"
  shows "sheet_values g = g"
proof -
  let ?n = "length (hd g)"
  have "dropWhile (\<lambda>r. r = []) (rev (map trim_row g)) = rev (map trim_row g)"
    using assms(1,5) by (cases g rule: rev_cases) simp_all
  then have api: "api_values g = map trim_row g" by (simp add: api_values_def)
  have "fold max (map length (map trim_row g)) 0 \<le> ?n"
    using assms(2) length_trim_row by (intro fold_max_le) (auto, metis)
  moreover have "length (trim_row (hd g)) \<le> fold max (map length (map trim_row g)) 0"
    using assms(1) by (intro fold_max_ge) simp
  moreover have "trim_row (hd g) = hd g" by (rule trim_row_id [OF assms(4) assms(3)])
  ultimately have n: "fold max (map length (map trim_row g)) 0 = ?n" by simp
  have "map (pad_to ?n) (map trim_row g) = g"
  proof -
    have "pad_to ?n (trim_row r) = r" if "r \<in> set g" for r
      using assms(2) that trim_row_pad [of r] by simp
    then show ?thesis by (simp add: map_idI)
  qed
  then show ?thesis unfolding sheet_values_def fill_gaps_def api Let_def n .
qed

lemma env_indepD [simp]:
  "env_indep p \<Longrightarrow> p (w\<lparr>calls := cs\<rparr>) = p w" "env_indep p \<Longrightarrow> p (w\<lparr>faults := fs\<rparr>) = p w"
  "env_indep p \<Longrightarrow> p (w\<lparr>book := b\<rparr>) = p w" "env_indep p \<Longrightarrow> p (w\<lparr>clock := n\<rparr>) = p w"
  "env_indep p \<Longrightarrow> p (w\<lparr>sleeps := ns\<rparr>) = p w"
  by (simp_all add: env_indep_def)

lemma env_indep_modify_grid [simp]: "env_indep p \<Longrightarrow> p (modify_grid h f w) = p w"
  by (simp add: modify_grid_def split: option.splits)

lemma find_tab_map_tab:
  "(\<And>t. tab_title (f t) = tab_title t) \<Longrightarrow> find_tab n (map_tab n f tabs) = map_option f (find_tab n tabs)"
  by (induction tabs) (simp_all add: find_tab_def map_tab_def)

lemma find_tab_map_tab_other:
  "n' \<noteq> n \<Longrightarrow> (\<And>t. tab_title (f t) = tab_title t) \<Longrightarrow> find_tab n' (map_tab n f tabs) = find_tab n' tabs"
  by (induction tabs) (simp_all add: find_tab_def map_tab_def)

text \<open>A write to one worksheet leaves every worksheet of another title as it was.\<close>

lemma lookup_ws_modify_grid_other:
  "ws_title h' \<noteq> ws_title h \<Longrightarrow> lookup_ws (modify_grid h f w) h' = lookup_ws w h'"
  by (simp add: lookup_ws_def modify_grid_def find_tab_map_tab_other split: option.splits)

lemma lookup_ws_modify_grid:
  "lookup_ws (modify_grid h f w) h = map_option (\<lambda>t. t\<lparr>tab_grid := f (tab_grid t)\<rparr>) (lookup_ws w h)"
  by (simp add: lookup_ws_def modify_grid_def find_tab_map_tab split: option.splits)

lemma length_set_cell: "i < length g \<Longrightarrow> length (set_cell g i j v) = length g"
  by (simp add: set_cell_def Let_def)

text \<open>The fault schedule: the next entry decides whether the call fails.\<close>

lemma remote_call_fault [simp]:
  "faults w = Some e # fs \<Longrightarrow> remote_call c eff w = (Inl e, w\<lparr>calls := calls w @ [c], faults := fs\<rparr>)"
  by (simp add: remote_call_def)

lemma remote_call_pass [simp]:
  "faults w = None # fs \<Longrightarrow> remote_call c eff w = eff (w\<lparr>calls := calls w @ [c], faults := fs\<rparr>)"
  by (simp add: remote_call_def)

lemma remote_call_nofault [simp]:
  "faults w = [] \<Longrightarrow> remote_call c eff w = eff (w\<lparr>calls := calls w @ [c]\<rparr>)"
  by (simp add: remote_call_def)

lemma lookup_ws_env [simp]:
  "lookup_ws (w\<lparr>calls := cs\<rparr>) = lookup_ws w" "lookup_ws (w\<lparr>faults := fs\<rparr>) = lookup_ws w"
  "lookup_ws (w\<lparr>clock := n\<rparr>) = lookup_ws w" "lookup_ws (w\<lparr>sleeps := ns\<rparr>) = lookup_ws w"
  "lookup_ws (w\<lparr>data_cache := dc\<rparr>) = lookup_ws w"
  by (simp_all add: lookup_ws_def fun_eq_iff)

lemma remote_call_env:
  assumes "\<And>w. calls (snd (eff w)) = calls w \<and> sleeps (snd (eff w)) = sleeps w \<and> clock (snd (eff w)) = clock w"
  shows "calls (snd (remote_call c eff w)) = calls w @ [c]
    \<and> sleeps (snd (remote_call c eff w)) = sleeps w \<and> clock (snd (remote_call c eff w)) = clock w"
proof (cases "faults w")
  case Nil
  then show ?thesis by (simp add: assms)
next
  case (Cons x fs)
  then show ?thesis by (cases x) (simp_all add: assms)
qed

lemma keeps_remote_call [frame_rules]:
  assumes "env_indep p" "keeps p eff"
  shows "keeps p (remote_call c eff)"
  unfolding keeps_def
proof
  fix w
  show "p (snd (remote_call c eff w)) = p w"
  proof (cases "faults w")
    case Nil
    with assms show ?thesis by (simp add: keeps_def)
  next
    case (Cons x fs)
    with assms show ?thesis by (cases x) (simp_all add: keeps_def)
  qed
qed

lemma keeps_grid_op [frame_rules]: "env_indep p \<Longrightarrow> keeps p (grid_op c h f)"
  unfolding grid_op_def by (rule keeps_remote_call) (simp_all add: keeps_def split: option.splits)

lemma keeps_gs_ops [frame_rules]:
  assumes "env_indep p"
  shows "keeps p (gs_get_all_values h)" "keeps p (gs_update h rng vals)" "keeps p (gs_clear h)"
    "keeps p (gs_append_row h row)" "keeps p (gs_update_cell h i j v)"
    "keeps p (gs_open_by_key gc key)" "keeps p (gs_worksheets sh)" "keeps p (gs_add_worksheet sh name r c)"
proof -
  show "keeps p (gs_get_all_values h)"
    unfolding gs_get_all_values_def
    by (rule keeps_remote_call [OF assms]) (simp add: keeps_def split: option.splits)
  show "keeps p (gs_update h rng vals)" "keeps p (gs_clear h)" "keeps p (gs_append_row h row)"
    by (simp_all add: gs_update_def gs_clear_def gs_append_row_def keeps_grid_op assms)
  show "keeps p (gs_update_cell h i j v)"
    unfolding gs_update_cell_def
    by (intro keeps_if keeps_remote_call keeps_grid_op keeps_rraise assms)
  show "keeps p (gs_open_by_key gc key)"
    unfolding gs_open_by_key_def
    by (rule keeps_remote_call [OF assms]) (simp add: keeps_def)
  show "keeps p (gs_worksheets sh)"
    unfolding gs_worksheets_def
    by (cases sh) (simp, rule keeps_remote_call [OF assms], simp add: keeps_def split: option.splits)
  show "keeps p (gs_add_worksheet sh name r c)"
    unfolding gs_add_worksheet_def
    by (cases sh) (simp, rule keeps_remote_call [OF assms], simp add: keeps_def assms split: option.splits)
qed

end
