(* ===== verification/Retry.thy ===== *)
theory Retry
  imports Remote
begin

text \<open>
  The Retry Executor of \<^verbatim>\<open>src/gsheets_io.py\<close> (lines 62--101): the classification
  \<open>_need_retry\<close>, the loop \<open>with_retry\<close> (at most five attempts, sleeping 1, 2, 4, 8
  and 16 seconds after a transient failure) and the \<open>safe_*\<close> wrappers that run one
  gspread call under it.  Times are milliseconds.  The lemmas give the loop's
  behaviour on each branch (success, fatal failure, transient failure, exhaustion), the
  bound on attempts, the exact sleep schedule, and that the loop returns.
\<close>

section \<open>Definitions\<close>

fun need_retry :: "exc \<Rightarrow> bool" where
  "need_retry (APIError code msg) =
     (code \<in> set [Some 429, Some 500, Some 503]
      \<or> contains ''Quota exceeded'' msg \<or> contains ''rateLimitExceeded'' msg)"
| "need_retry _ = False"

definition sleep :: "nat \<Rightarrow> world \<Rightarrow> world" where
  "sleep d w = w\<lparr>clock := clock w + d, sleeps := sleeps w @ [d]\<rparr>"

text \<open>
  The \<open>for _ in range(5)\<close> loop, with the number of iterations left, the current
  \<open>delay\<close> and \<open>last\<close>.  After the loop, \<open>raise last\<close> (a \<open>TypeError\<close> in Python
  when \<open>last\<close> is \<open>None\<close>, which the loop never leaves it).
\<close>

fun retry_loop :: "nat \<Rightarrow> nat \<Rightarrow> exc option \<Rightarrow> ('a, world) st \<Rightarrow> ('a, world) st" where
  "retry_loop 0 delay last_e f w = (case last_e of None \<Rightarrow> (Inl TypeError, w) | Some e \<Rightarrow> (Inl e, w))"
| "retry_loop (Suc n) delay last_e f w =
     (case f w of
        (Inr a, w') \<Rightarrow> (Inr a, w')
      | (Inl e, w') \<Rightarrow>
          if need_retry e then retry_loop n (2 * delay) (Some e) f (sleep delay w')
          else (Inl e, w'))"

definition max_attempts :: nat where
  "max_attempts = 5"

definition with_retry :: "('a, world) st \<Rightarrow> ('a, world) st" where
  "with_retry f = retry_loop max_attempts 1000 None f"

definition safe_update :: "ws \<Rightarrow> string \<Rightarrow> string list list \<Rightarrow> (unit, world) st" where
  "safe_update h rng vals = with_retry (gs_update h rng vals)"

definition safe_clear :: "ws \<Rightarrow> (unit, world) st" where
  "safe_clear h = with_retry (gs_clear h)"

definition safe_get_all_values :: "ws \<Rightarrow> (string list list, world) st" where
  "safe_get_all_values h = with_retry (gs_get_all_values h)"

definition safe_append_row :: "ws \<Rightarrow> string list \<Rightarrow> (unit, world) st" where
  "safe_append_row h row = with_retry (gs_append_row h row)"

definition safe_update_cell :: "ws \<Rightarrow> nat \<Rightarrow> nat \<Rightarrow> string \<Rightarrow> (unit, world) st" where
  "safe_update_cell h i j v = with_retry (gs_update_cell h i j v)"

text \<open>The backoff schedule: \<open>k\<close> sleeps starting at \<open>d\<close>, each twice the last.\<close>

fun backoff :: "nat \<Rightarrow> nat \<Rightarrow> nat list" where
  "backoff d 0 = []"
| "backoff d (Suc k) = d # backoff (2 * d) k"

text \<open>Operations that issue exactly one remote call and do not sleep.\<close>

definition single_call :: "('a, world) st \<Rightarrow> bool" where
  "single_call f \<longleftrightarrow> (\<forall>w. \<exists>c. calls (snd (f w)) = calls w @ [c])"

definition no_sleep :: "('a, world) st \<Rightarrow> bool" where
  "no_sleep f \<longleftrightarrow> (\<forall>w. sleeps (snd (f w)) = sleeps w \<and> clock (snd (f w)) = clock w)"

definition transient :: "exc + 'a \<Rightarrow> bool" where
  "transient r = (case r of Inl e \<Rightarrow> need_retry e | Inr _ \<Rightarrow> False)"

definition error_503 :: exc where
  "error_503 = APIError (Some 503) ''The service is currently unavailable.''"

section \<open>The backoff schedule\<close>

lemma sleep_env [simp]:
  "faults (sleep d w) = faults w" "wsmap_cache (sleep d w) = wsmap_cache w" "lookup_ws (sleep d w) = lookup_ws w"
  by (simp_all add: sleep_def)


lemma backoff_closed: "backoff d k = map (\<lambda>i. d * 2 ^ i) [0..<k]"
proof (induction k arbitrary: d)
  case (Suc k)
  then show ?case by (simp add: upt_conv_Cons map_Suc_upt [symmetric] del: upt_Suc)
qed simp

lemma backoff_length [simp]: "length (backoff d k) = k"
  by (induction k arbitrary: d) simp_all

lemma backoff_prefix: "j \<le> k \<Longrightarrow> prefix (backoff d j) (backoff d k)"
proof (induction j arbitrary: d k)
  case (Suc j)
  then show ?case by (cases k) auto
qed simp

lemma backoff_sum_plus: "sum_list (backoff d k) + d = d * 2 ^ k"
proof (induction k arbitrary: d)
  case (Suc k)
  from Suc [of "2 * d"] show ?case by simp
qed simp

lemma backoff_sum: "sum_list (backoff d k) = d * (2 ^ k - 1)"
  using backoff_sum_plus [of d k] by (simp add: diff_mult_distrib2)

lemma backoff_numeral [simp]: "backoff d (numeral k) = d # backoff (2 * d) (pred_numeral k)"
  by (subst numeral_eq_Suc) simp

lemma retry_loop_numeral [simp]:
  "retry_loop (numeral k) d l f w =
     (case f w of
        (Inr a, w') \<Rightarrow> (Inr a, w')
      | (Inl e, w') \<Rightarrow>
          if need_retry e then retry_loop (pred_numeral k) (2 * d) (Some e) f (sleep d w')
          else (Inl e, w'))"
  by (subst numeral_eq_Suc) (simp only: retry_loop.simps)

section \<open>Operations that make one remote call\<close>

lemma remote_call_single_call:
  assumes "\<And>w. calls (snd (eff w)) = calls w \<and> sleeps (snd (eff w)) = sleeps w \<and> clock (snd (eff w)) = clock w"
  shows "single_call (remote_call c eff)" and "no_sleep (remote_call c eff)"
  using remote_call_env [OF assms] by (auto simp: single_call_def no_sleep_def)

lemma grid_op_single_call:
  "single_call (grid_op c h f)" "no_sleep (grid_op c h f)"
  unfolding grid_op_def by (rule remote_call_single_call; simp split: option.splits)+

lemma gs_single_call:
  "single_call (gs_get_all_values h)" "no_sleep (gs_get_all_values h)"
  "single_call (gs_update h rng vals)" "no_sleep (gs_update h rng vals)"
  "single_call (gs_clear h)" "no_sleep (gs_clear h)"
  "single_call (gs_append_row h row)" "no_sleep (gs_append_row h row)"
  "single_call (gs_update_cell h i j v)" "no_sleep (gs_update_cell h i j v)"
  by (simp_all add: gs_update_def gs_clear_def gs_append_row_def gs_update_cell_def
      gs_get_all_values_def grid_op_single_call remote_call_single_call split: option.splits)

lemma single_callD: "single_call f \<Longrightarrow> f w = (r, w1) \<Longrightarrow> length (calls w1) = Suc (length (calls w))"
  unfolding single_call_def by (metis length_append_singleton snd_conv)

lemma no_sleepD: "no_sleep f \<Longrightarrow> f w = (r, w1) \<Longrightarrow> sleeps w1 = sleeps w \<and> clock w1 = clock w"
  unfolding no_sleep_def by (metis snd_conv)

section \<open>The loop, branch by branch\<close>

lemma retry_loop_Suc_Inr [simp]: "f w = (Inr a, w1) \<Longrightarrow> retry_loop (Suc n) d l f w = (Inr a, w1)"
  by simp

lemma retry_loop_Suc_fatal [simp]:
  "f w = (Inl e, w1) \<Longrightarrow> \<not> need_retry e \<Longrightarrow> retry_loop (Suc n) d l f w = (Inl e, w1)"
  by simp

lemma retry_loop_Suc_transient [simp]:
  "f w = (Inl e, w1) \<Longrightarrow> need_retry e \<Longrightarrow>
   retry_loop (Suc n) d l f w = retry_loop n (2 * d) (Some e) f (sleep d w1)"
  by simp

lemma with_retry_unfold: "with_retry f = retry_loop 5 1000 None f"
  by (simp add: with_retry_def max_attempts_def)

text \<open>
  The shape of every run of the loop over an operation that makes one remote call: it
  makes \<open>k + 1\<close> attempts for some \<open>k\<close> below the number of iterations, sleeps
  after each transient failure (so \<open>k\<close> times, or \<open>k + 1\<close> times when it ends on a
  transient failure), and it ends on a transient failure only after the last iteration.
\<close>

lemma retry_loop_get_all_values_recovers:
  assumes "lookup_ws w h = Some t" "list_all need_retry es" "length es < n"
    "faults w = map Some es @ None # fs"
  shows "retry_loop n d l (gs_get_all_values h) w =
    (Inr (sheet_values (tab_grid t)),
     w\<lparr>calls := calls w @ replicate (Suc (length es)) (GetAllValues h), faults := fs,
       clock := clock w + sum_list (backoff d (length es)), sleeps := sleeps w @ backoff d (length es)\<rparr>)"
  using assms
proof (induction es arbitrary: n d l w)
  case Nil
  then obtain m where "n = Suc m" by (cases n) auto
  with Nil show ?case by (simp add: gs_get_all_values_def)
next
  case (Cons e es)
  then obtain m where n: "n = Suc m" by (cases n) auto
  let ?w1 = "w\<lparr>calls := calls w @ [GetAllValues h], faults := map Some es @ None # fs\<rparr>"
  have f: "gs_get_all_values h w = (Inl e, ?w1)"
    using Cons.prems(4) by (simp add: gs_get_all_values_def)
  have ih: "retry_loop m (2 * d) (Some e) (gs_get_all_values h) (sleep d ?w1) =
    (Inr (sheet_values (tab_grid t)),
     (sleep d ?w1)\<lparr>calls := calls (sleep d ?w1) @ replicate (Suc (length es)) (GetAllValues h), faults := fs,
       clock := clock (sleep d ?w1) + sum_list (backoff (2 * d) (length es)),
       sleeps := sleeps (sleep d ?w1) @ backoff (2 * d) (length es)\<rparr>)"
    by (rule Cons.IH) (use Cons.prems n in \<open>simp_all add: sleep_def lookup_ws_def\<close>)
  from ih Cons.prems(2) show ?case
    by (simp add: n f sleep_def)
qed

lemma retry_loop_shape:
  assumes "single_call f" "no_sleep f" "retry_loop (Suc n) d l f w = (r, w')"
  shows "\<exists>k \<le> n. length (calls w') = length (calls w) + Suc k
     \<and> sleeps w' = sleeps w @ backoff d (if transient r then Suc k else k)
     \<and> clock w' = clock w + sum_list (backoff d (if transient r then Suc k else k))
     \<and> (transient r \<longrightarrow> k = n)"
  using assms(3)
proof (induction n arbitrary: d l w)
  case 0
  obtain r1 w1 where f: "f w = (r1, w1)" by fastforce
  have c: "length (calls w1) = Suc (length (calls w))" using single_callD [OF assms(1) f] .
  have s: "sleeps w1 = sleeps w \<and> clock w1 = clock w" using no_sleepD [OF assms(2) f] .
  show ?case
    using "0.prems" f c s by (auto simp: transient_def sleep_def split: sum.splits if_splits)
next
  case (Suc n)
  obtain r1 w1 where f: "f w = (r1, w1)" by fastforce
  have c: "length (calls w1) = Suc (length (calls w))" using single_callD [OF assms(1) f] .
  have s: "sleeps w1 = sleeps w \<and> clock w1 = clock w" using no_sleepD [OF assms(2) f] .
  show ?case
  proof (cases "\<exists>e. r1 = Inl e \<and> need_retry e")
    case True
    then obtain e where e: "r1 = Inl e" "need_retry e" by blast
    with f Suc.prems have "retry_loop (Suc n) (2 * d) (Some e) f (sleep d w1) = (r, w')"
      by simp
    from Suc.IH [OF this] obtain k where k: "k \<le> n"
      "length (calls w') = length (calls (sleep d w1)) + Suc k"
      "sleeps w' = sleeps (sleep d w1) @ backoff (2 * d) (if transient r then Suc k else k)"
      "clock w' = clock (sleep d w1) + sum_list (backoff (2 * d) (if transient r then Suc k else k))"
      "transient r \<longrightarrow> k = n" by blast
    show ?thesis
      by (rule exI [of _ "Suc k"]) (use k c s in \<open>auto simp: sleep_def\<close>)
  next
    case False
    with f Suc.prems have "r = r1 \<and> w' = w1"
      by (cases r1) (auto split: if_splits)
    with False c s show ?thesis
      by (cases r1) (auto simp: transient_def)
  qed
qed

section \<open>Properties of the Retry Executor\<close>

text \<open>
  C16. \<open>with_retry\<close> over an operation that makes one remote call makes between one and
  five attempts; it sleeps with the schedule 1 s, 2 s, 4 s, \<open>\<dots>\<close> once after each
  transient failure; and it ends on a transient failure only after all five attempts.
\<close>

theorem with_retry_attempts:
  assumes "single_call f" "no_sleep f" "with_retry f w = (r, w')"
  shows "\<exists>k. 1 \<le> k \<and> k \<le> max_attempts \<and> length (calls w') = length (calls w) + k
     \<and> sleeps w' = sleeps w @ backoff 1000 (if transient r then k else k - 1)
     \<and> (transient r \<longrightarrow> k = max_attempts)"
proof -
  have "retry_loop (Suc 4) 1000 None f w = (r, w')"
    using assms(3) by (simp add: with_retry_unfold)
  from retry_loop_shape [OF assms(1,2) this] obtain k where k: "k \<le> 4"
    "length (calls w') = length (calls w) + Suc k"
    "sleeps w' = sleeps w @ backoff 1000 (if transient r then Suc k else k)"
    "transient r \<longrightarrow> k = 4" by blast
  then show ?thesis
    by (intro exI [of _ "Suc k"]) (auto simp: max_attempts_def)
qed

text \<open>
  C17. A failure that \<open>_need_retry\<close> classifies as fatal on the first attempt is
  raised at once: exactly that one attempt, and no sleep.
\<close>

theorem with_retry_fatal_first:
  "f w = (Inl e, w1) \<Longrightarrow> \<not> need_retry e \<Longrightarrow> with_retry f w = (Inl e, w1)"
  by (simp add: with_retry_unfold)

text \<open>
  C18. A read whose first attempts fail with transient errors (fewer than five of them)
  and whose next attempt succeeds returns the sheet's values, after one attempt per
  failure plus one and after sleeping 1 s, 2 s, \<open>\<dots>\<close> once per failure.
\<close>

theorem safe_get_all_values_recovers:
  assumes "lookup_ws w h = Some t" "list_all need_retry es" "length es < max_attempts"
    "faults w = map Some es @ None # fs"
  shows "safe_get_all_values h w =
    (Inr (sheet_values (tab_grid t)),
     w\<lparr>calls := calls w @ replicate (Suc (length es)) (GetAllValues h), faults := fs,
       clock := clock w + sum_list (backoff 1000 (length es)),
       sleeps := sleeps w @ backoff 1000 (length es)\<rparr>)"
  using retry_loop_get_all_values_recovers [OF assms(1,2) _ assms(4)] assms(3)
  by (simp add: safe_get_all_values_def with_retry_def)

text \<open>
  C19. When every attempt fails transiently, \<open>with_retry\<close> makes five attempts and
  sleeps five times, 31 s in all: it sleeps 16 s after the fifth and last attempt too,
  before raising the last error (the spec says no delay follows the final attempt).
\<close>

theorem with_retry_exhausted:
  assumes "single_call f" "no_sleep f" "with_retry f w = (Inl e, w')" "need_retry e"
  shows "length (calls w') = length (calls w) + 5
    \<and> sleeps w' = sleeps w @ [1000, 2000, 4000, 8000, 16000] \<and> clock w' = clock w + 31000"
proof -
  have "retry_loop (Suc 4) 1000 None f w = (Inl e, w')"
    using assms(3) by (simp add: with_retry_unfold)
  from retry_loop_shape [OF assms(1,2) this] assms(4) show ?thesis
    by (auto simp: transient_def)
qed

section \<open>Witnesses\<close>

theorem with_retry_attempts_witness:
  "\<exists>k. 1 \<le> k \<and> k \<le> max_attempts
     \<and> length (calls (snd (with_retry (gs_get_all_values example_ws) example_world)))
         = length (calls example_world) + k"
  using with_retry_attempts [OF gs_single_call(1,2) surjective_pairing, of example_ws example_world]
  by blast

theorem with_retry_fatal_first_witness:
  "with_retry (gs_get_all_values example_ws) (example_world\<lparr>faults := [Some (APIError (Some 403) ''PERMISSION_DENIED'')]\<rparr>)
   = (Inl (APIError (Some 403) ''PERMISSION_DENIED''),
      example_world\<lparr>calls := [GetAllValues example_ws]\<rparr>)"
proof -
  have "gs_get_all_values example_ws (example_world\<lparr>faults := [Some (APIError (Some 403) ''PERMISSION_DENIED'')]\<rparr>)
     = (Inl (APIError (Some 403) ''PERMISSION_DENIED''), example_world\<lparr>calls := [GetAllValues example_ws]\<rparr>)"
    by (simp add: gs_get_all_values_def example_defs)
  moreover have "\<not> need_retry (APIError (Some 403) ''PERMISSION_DENIED'')" by simp
  ultimately show ?thesis by (rule with_retry_fatal_first)
qed

text \<open>The scenario of the spec: status 503 on attempts 1 and 2, success on attempt 3.\<close>

theorem safe_get_all_values_recovers_witness:
  "safe_get_all_values example_ws (example_world\<lparr>faults := [Some error_503, Some error_503, None]\<rparr>)
   = (Inr [[''ItemKey'', ''Read'']],
      example_world\<lparr>calls := [GetAllValues example_ws, GetAllValues example_ws, GetAllValues example_ws],
                    clock := 3000,
                    sleeps := [1000, 2000]\<rparr>)"
proof -
  let ?w = "example_world\<lparr>faults := [Some error_503, Some error_503, None]\<rparr>"
  have "lookup_ws ?w example_ws = Some example_tab"
    by (simp add: example_defs lookup_ws_def find_tab_def)
  moreover have "list_all need_retry [error_503, error_503]"
    by (simp add: error_503_def)
  moreover have "length [error_503, error_503] < max_attempts"
    by (simp add: max_attempts_def)
  moreover have "faults ?w = map Some [error_503, error_503] @ None # []"
    by simp
  ultimately have "safe_get_all_values example_ws ?w =
    (Inr (sheet_values (tab_grid example_tab)),
     ?w\<lparr>calls := calls ?w @ replicate (Suc (length [error_503, error_503])) (GetAllValues example_ws),
        faults := [], clock := clock ?w + sum_list (backoff 1000 (length [error_503, error_503])),
        sleeps := sleeps ?w @ backoff 1000 (length [error_503, error_503])\<rparr>)"
    by (rule safe_get_all_values_recovers)
  then show ?thesis
    by (simp add: example_defs sheet_values_def api_values_def trim_row_def fill_gaps_def pad_to_def)
qed

theorem with_retry_exhausted_witness:
  "length (calls (snd (with_retry (gs_get_all_values example_ws)
            (example_world\<lparr>faults := [Some error_503, Some error_503, Some error_503, Some error_503, Some error_503]\<rparr>)))) = 5
   \<and> sleeps (snd (with_retry (gs_get_all_values example_ws)
            (example_world\<lparr>faults := [Some error_503, Some error_503, Some error_503, Some error_503, Some error_503]\<rparr>))) = [1000, 2000, 4000, 8000, 16000]"
proof -
  let ?w = "example_world\<lparr>faults := [Some error_503, Some error_503, Some error_503, Some error_503, Some error_503]\<rparr>"
  have r: "fst (with_retry (gs_get_all_values example_ws) ?w) = Inl error_503"
    by (simp add: with_retry_unfold gs_get_all_values_def sleep_def example_defs)
  have "with_retry (gs_get_all_values example_ws) ?w = (Inl error_503, snd (with_retry (gs_get_all_values example_ws) ?w))"
    using r by (metis prod.collapse)
  from with_retry_exhausted [OF gs_single_call(1,2) this] show ?thesis
    by (simp add: error_503_def example_defs)
qed

section \<open>Frame conditions\<close>

lemma keeps_retry_loop [frame_rules]:
  assumes "env_indep p" "keeps p f"
  shows "keeps p (retry_loop n d l f)"
  unfolding keeps_def
proof
  fix w
  show "p (snd (retry_loop n d l f w)) = p w"
    using assms
  proof (induction n arbitrary: d l w)
    case 0
    then show ?case by (simp split: option.splits)
  next
    case (Suc n)
    obtain r w1 where f: "f w = (r, w1)" by fastforce
    have "p w1 = p w" using keepsD [OF Suc.prems(2) f] .
    moreover have "p (sleep d w1) = p w1" using Suc.prems(1) by (simp add: sleep_def)
    ultimately show ?case
      using Suc.IH [OF Suc.prems, of "2 * d" _ "sleep d w1"] f
      by (cases r) (auto simp: sleep_def)
  qed
qed

lemma keeps_safe_ops [frame_rules]:
  assumes "env_indep p"
  shows "keeps p (with_retry (gs_get_all_values h))" "keeps p (safe_get_all_values h)"
    "keeps p (safe_update h rng vals)" "keeps p (safe_clear h)" "keeps p (safe_append_row h row)"
    "keeps p (safe_update_cell h i j v)"
  using assms
  by (simp_all add: with_retry_def safe_get_all_values_def safe_update_def safe_clear_def
      safe_append_row_def safe_update_cell_def keeps_retry_loop keeps_gs_ops)

end
