(* ===== verification/Auth.thy ===== *)
theory Auth
  imports Remote
begin

text \<open>
  The Authenticator, \<open>get_client\<close> of \<^verbatim>\<open>src/gsheets_io.py\<close> (lines 16--32): the
  credential comes from the \<open>gcp_service_account\<close> table of \<open>st.secrets\<close> (its
  \<open>private_key\<close> with escaped newlines turned into real ones) or else from the file
  named by \<open>GOOGLE_APPLICATION_CREDENTIALS\<close>; with neither, a \<open>RuntimeError\<close>.  The
  authorised client is memoised by \<open>@st.cache_resource\<close> in \<open>client_cache\<close>.
  \<open>gspread.authorize\<close> makes no request, and the credential constructors are not
  checked here (their validation of the key material is the library's).
\<close>

section \<open>Definitions\<close>

definition esc_nl :: string where
  "esc_nl = [CHR 0x5C, CHR ''n'']"

definition nl :: string where
  "nl = [CHR 0x0A]"

definition normalize_svc :: "(string \<times> string) list \<Rightarrow> (string \<times> string) list" where
  "normalize_svc svc =
     (let pk = (case map_of svc ''private_key'' of None \<Rightarrow> [] | Some v \<Rightarrow> v) in
      if contains esc_nl pk \<and> contains ''BEGIN PRIVATE KEY'' pk
      then AList.update ''private_key'' (replace_all esc_nl nl pk) svc
      else svc)"

definition missing_credentials :: exc where
  "missing_credentials = RuntimeError ''missing credentials: gcp_service_account or GOOGLE_APPLICATION_CREDENTIALS''"

definition load_credentials :: "config \<Rightarrow> exc + credential" where
  "load_credentials c =
     (case secret_svc c of
        Some svc \<Rightarrow> Inr (ServiceInfo (normalize_svc svc))
      | None \<Rightarrow>
          (case env_cred_path c of
             None \<Rightarrow> Inl missing_credentials
           | Some p \<Rightarrow>
               if p = [] \<or> p \<notin> set (existing_files c) then Inl missing_credentials
               else Inr (ServiceFile p)))"

definition get_client :: "(client, world) st" where
  "get_client w =
     (case client_cache w of
        Some gc \<Rightarrow> (Inr gc, w)
      | None \<Rightarrow>
          (case load_credentials (cfg w) of
             Inl e \<Rightarrow> (Inl e, w)
           | Inr cr \<Rightarrow> (Inr (Authorized cr), w\<lparr>client_cache := Some (Authorized cr)\<rparr>)))"

section \<open>Escaped newlines\<close>

lemma replace_pair_head:
  assumes "c \<noteq> b"
  shows "replace_all [a, b] [c] s = b # t \<Longrightarrow> \<exists>t'. s = b # t'"
  using assms by (cases s) (auto split: if_splits)

lemma replace_pair_removes:
  assumes "c \<noteq> a" "c \<noteq> b"
  shows "\<not> contains [a, b] (replace_all [a, b] [c] s)"
proof (induction "[a, b]" "[c]" s rule: replace_all.induct)
  case 1
  then show ?case by simp
next
  case (2 x xs)
  show ?case
  proof (cases "prefix [a, b] (x # xs)")
    case True
    have ih: "\<not> contains [a, b] (replace_all [a, b] [c] (drop (length [a, b]) (x # xs)))"
      using "2.hyps"(2) True by simp
    from True have "replace_all [a, b] [c] (x # xs)
        = c # replace_all [a, b] [c] (drop (length [a, b]) (x # xs))"
      by simp
    with ih assms show ?thesis by (simp only:) (simp add: prefix_def)
  next
    case False
    have "\<not> (x = a \<and> prefix [b] (replace_all [a, b] [c] xs))"
    proof
      assume "x = a \<and> prefix [b] (replace_all [a, b] [c] xs)"
      then obtain t where "x = a" "replace_all [a, b] [c] xs = b # t"
        by (auto simp: prefix_def)
      then obtain t' where "xs = b # t'" using replace_pair_head [OF assms(2)] by blast
      with \<open>x = a\<close> False show False by simp
    qed
    moreover from False have "replace_all [a, b] [c] (x # xs) = x # replace_all [a, b] [c] xs"
      by auto
    ultimately show ?thesis using False "2.hyps"(3) by auto
  qed
qed

lemma update_private_key:
  "map_of (AList.update ''private_key'' v svc) ''private_key'' = Some v"
  by (simp add: update_conv')

lemma replace_esc_nl_removes: "\<not> contains esc_nl (replace_all esc_nl nl s)"
  unfolding esc_nl_def nl_def by (rule replace_pair_removes) simp_all

section \<open>The client and its cache\<close>

lemma get_client_state:
  "get_client w = (r, w') \<Longrightarrow> w' = w \<or> (\<exists>gc. r = Inr gc \<and> w' = w\<lparr>client_cache := Some gc\<rparr>)"
  by (auto simp: get_client_def split: option.splits sum.splits)

lemma get_client_env [simp]:
  "book (snd (get_client w)) = book w" "calls (snd (get_client w)) = calls w"
  "faults (snd (get_client w)) = faults w" "clock (snd (get_client w)) = clock w"
  "sleeps (snd (get_client w)) = sleeps w" "sheet_cache (snd (get_client w)) = sheet_cache w"
  "wsmap_cache (snd (get_client w)) = wsmap_cache w" "data_cache (snd (get_client w)) = data_cache w"
  "cfg (snd (get_client w)) = cfg w"
  by (simp_all add: get_client_def split: option.splits sum.splits)

section \<open>Properties of the Authenticator\<close>

text \<open>
  C20. After \<open>get_client\<close>'s normalisation, the private key of the secrets table never
  holds both the marker \<open>BEGIN PRIVATE KEY\<close> and an escaped newline (a backslash followed by n): every
  escaped newline of a PEM key is turned into a real one (keys without the marker are
  left as they are).
\<close>

theorem normalize_svc_private_key:
  "\<not> (contains esc_nl (case map_of (normalize_svc svc) ''private_key'' of None \<Rightarrow> [] | Some v \<Rightarrow> v)
      \<and> contains ''BEGIN PRIVATE KEY''
          (case map_of (normalize_svc svc) ''private_key'' of None \<Rightarrow> [] | Some v \<Rightarrow> v))"
  by (auto simp: normalize_svc_def Let_def update_private_key replace_esc_nl_removes)

text \<open>
  C14. The client is authorised once and memoised: a successful \<open>get_client\<close> leaves
  only the cache changed, makes no remote call, and a later call returns the same client
  without changing anything.
\<close>

theorem get_client_memoised:
  assumes "get_client w = (Inr gc, w')"
  shows "w' = w\<lparr>client_cache := Some gc\<rparr> \<and> get_client w' = (Inr gc, w')"
  using assms by (auto simp: get_client_def split: option.splits sum.splits)

text \<open>
  C21. Without a cached client, \<open>get_client\<close> raises the missing-credential
  \<open>RuntimeError\<close> exactly when the secrets hold no service account and the environment
  names no credential file that exists (unset, empty, or not a file); it changes nothing.
\<close>

theorem get_client_missing:
  assumes "client_cache w = None"
  shows "get_client w = (Inl missing_credentials, w) \<longleftrightarrow>
    secret_svc (cfg w) = None \<and>
    (case env_cred_path (cfg w) of None \<Rightarrow> True | Some p \<Rightarrow> p = [] \<or> p \<notin> set (existing_files (cfg w)))"
  using assms by (auto simp: get_client_def load_credentials_def split: option.splits)

section \<open>Witnesses\<close>

theorem get_client_memoised_witness:
  "get_client example_world =
     (Inr (Authorized (ServiceFile ''/run/creds.json'')),
      example_world\<lparr>client_cache := Some (Authorized (ServiceFile ''/run/creds.json''))\<rparr>)
   \<and> get_client (example_world\<lparr>client_cache := Some (Authorized (ServiceFile ''/run/creds.json''))\<rparr>) =
     (Inr (Authorized (ServiceFile ''/run/creds.json'')),
      example_world\<lparr>client_cache := Some (Authorized (ServiceFile ''/run/creds.json''))\<rparr>)"
proof -
  have g: "get_client example_world =
     (Inr (Authorized (ServiceFile ''/run/creds.json'')),
      example_world\<lparr>client_cache := Some (Authorized (ServiceFile ''/run/creds.json''))\<rparr>)"
    by (simp add: get_client_def load_credentials_def example_defs)
  from g get_client_memoised [OF g] show ?thesis by simp
qed

theorem get_client_missing_witness:
  "get_client (example_world\<lparr>cfg := example_config\<lparr>existing_files := []\<rparr>\<rparr>)
   = (Inl missing_credentials, example_world\<lparr>cfg := example_config\<lparr>existing_files := []\<rparr>\<rparr>)"
  by (subst get_client_missing) (simp_all add: example_defs)

lemma keeps_get_client [frame_rules]:
  "keeps data_cache get_client" "keeps wsmap_cache get_client" "keeps sheet_cache get_client"
  by (simp_all add: keeps_def)

end
