(* ===== verification/Registry.thy ===== *)
theory Registry
  imports Retry Auth
begin

text \<open>
  The Store and Table Registry of \<^verbatim>\<open>src/gsheets_io.py\<close> (lines 34--57):
  \<open>open_spreadsheet\<close> and \<open>list_worksheets_map\<close>, both memoised per spreadsheet id by
  \<open>@st.cache_resource\<close> (the combinator \<open>memo\<close>: look the key up, on a miss run the
  body and keep its result if it returns one), and \<open>get_or_create_worksheet\<close>, which
  looks the title up in the memoised map and otherwise adds a worksheet of 2000 rows and
  26 columns and writes the header row.  Neither \<open>open_by_key\<close>, \<open>worksheets\<close> nor
  \<open>add_worksheet\<close> runs under \<open>with_retry\<close>, and the memoised map is not told of a
  worksheet the function adds.
\<close>

section \<open>Definitions\<close>

definition memo :: "(world \<Rightarrow> 'k \<rightharpoonup> 'v) \<Rightarrow> (('k \<rightharpoonup> 'v) \<Rightarrow> world \<Rightarrow> world) \<Rightarrow> 'k \<Rightarrow> ('v, world) st \<Rightarrow> ('v, world) st" where
  "memo get put k body w =
     (case get w k of
        Some v \<Rightarrow> (Inr v, w)
      | None \<Rightarrow>
          (case body w of
             (Inl e, w') \<Rightarrow> (Inl e, w')
           | (Inr v, w') \<Rightarrow> (Inr v, put ((get w')(k \<mapsto> v)) w')))"

definition open_spreadsheet :: "string \<Rightarrow> (spreadsheet, world) st" where
  "open_spreadsheet sid =
     memo sheet_cache (\<lambda>m w. w\<lparr>sheet_cache := m\<rparr>) sid
       (rbind get_client (\<lambda>gc. gs_open_by_key gc sid))"

text \<open>\<open>{ws.title: ws for ws in wss}\<close>: a later worksheet of the same title wins.\<close>

definition ws_map_of :: "ws list \<Rightarrow> string \<rightharpoonup> ws" where
  "ws_map_of wss = fold (\<lambda>h m. m(ws_title h \<mapsto> h)) wss Map.empty"

definition list_worksheets_map :: "string \<Rightarrow> (string \<rightharpoonup> ws, world) st" where
  "list_worksheets_map sid =
     memo wsmap_cache (\<lambda>m w. w\<lparr>wsmap_cache := m\<rparr>) sid
       (rbind (open_spreadsheet sid) (\<lambda>sh. rbind (gs_worksheets sh) (\<lambda>wss. rreturn (ws_map_of wss))))"

definition default_rows :: nat where "default_rows = 2000"
definition default_cols :: nat where "default_cols = 26"

definition get_or_create_worksheet :: "string \<Rightarrow> string \<Rightarrow> string list option \<Rightarrow> (ws, world) st" where
  "get_or_create_worksheet sid name headers =
     rbind (list_worksheets_map sid) (\<lambda>ws_map.
       case ws_map name of
         Some h \<Rightarrow> rreturn h
       | None \<Rightarrow>
           rbind (open_spreadsheet sid) (\<lambda>sh.
           rbind (gs_add_worksheet sh name default_rows default_cols) (\<lambda>h.
             case headers of
               Some hs \<Rightarrow> if hs \<noteq> [] then rbind (safe_update h ''A1'' [hs]) (\<lambda>_. rreturn h) else rreturn h
             | None \<Rightarrow> rreturn h)))"

definition registry_world :: world where
  "registry_world = example_world\<lparr>sheet_cache := [''s1'' \<mapsto> Spreadsheet ''s1''],
                                  wsmap_cache := [''s1'' \<mapsto> [''ReadStatus'' \<mapsto> example_ws]]\<rparr>"

section \<open>The memo combinator\<close>

lemma memo_hit [simp]: "get w k = Some v \<Longrightarrow> memo get put k body w = (Inr v, w)"
  by (simp add: memo_def)

lemma memo_miss_fail:
  "get w k = None \<Longrightarrow> body w = (Inl e, w') \<Longrightarrow> memo get put k body w = (Inl e, w')"
  by (simp add: memo_def)

lemma memo_miss_ok:
  "get w k = None \<Longrightarrow> body w = (Inr v, w') \<Longrightarrow> memo get put k body w = (Inr v, put ((get w')(k \<mapsto> v)) w')"
  by (simp add: memo_def)

lemma memo_stores:
  assumes "memo get put k body w = (Inr v, w')" and "\<And>m w. get (put m w) = m"
  shows "get w' k = Some v"
  using assms by (cases "body w") (auto simp: memo_def split: option.splits sum.splits)

section \<open>Worksheets of the store\<close>

lemma find_tab_None: "find_tab name tabs = None \<longleftrightarrow> (\<forall>t \<in> set tabs. tab_title t \<noteq> name)"
  by (auto simp: find_tab_def find_None_iff)

lemma find_tab_snoc:
  "find_tab name tabs = None \<Longrightarrow> find_tab name (tabs @ [t]) = (if tab_title t = name then Some t else None)"
  unfolding find_tab_def by (induction tabs) auto

lemma map_tab_snoc:
  "find_tab name tabs = None \<Longrightarrow> map_tab name f (tabs @ [t]) = tabs @ [if tab_title t = name then f t else t]"
  unfolding find_tab_None map_tab_def by (auto intro: map_idI)

lemma gs_add_worksheet_new:
  assumes "book w key = Some tabs" "find_tab name tabs = None" "faults w = []"
  shows "gs_add_worksheet (Spreadsheet key) name r c w =
    (Inr \<lparr>ws_sheet = key, ws_title = name\<rparr>,
     w\<lparr>calls := calls w @ [AddWorksheet key name r c],
       book := (book w)(key \<mapsto> tabs @ [\<lparr>tab_title = name, tab_rows = r, tab_cols = c, tab_grid = []\<rparr>])\<rparr>)"
  using assms by (simp add: gs_add_worksheet_def)

lemma gs_add_worksheet_exists:
  assumes "book w key = Some tabs" "find_tab name tabs \<noteq> None" "faults w = []"
  shows "gs_add_worksheet (Spreadsheet key) name r c w =
    (Inl (sheet_exists_error name), w\<lparr>calls := calls w @ [AddWorksheet key name r c]\<rparr>)"
  using assms by (simp add: gs_add_worksheet_def)

lemma with_retry_first_ok [simp]: "f w = (Inr a, w1) \<Longrightarrow> with_retry f w = (Inr a, w1)"
  by (simp add: with_retry_unfold)

lemma get_or_create_hit [simp]:
  "wsmap_cache w sid = Some m \<Longrightarrow> m name = Some h \<Longrightarrow> get_or_create_worksheet sid name headers w = (Inr h, w)"
  by (simp add: get_or_create_worksheet_def list_worksheets_map_def)

section \<open>Properties of the Registry\<close>

text \<open>
  C22. \<open>list_worksheets_map\<close> is memoised per spreadsheet: once it has returned a map,
  the map is cached and every later call returns it without a remote call and without
  changing the state; the worksheet listing is fetched at most once per spreadsheet.
\<close>

theorem list_worksheets_map_memoised:
  assumes "list_worksheets_map sid w = (Inr m, w')"
  shows "wsmap_cache w' sid = Some m \<and> list_worksheets_map sid w' = (Inr m, w')"
proof -
  have "wsmap_cache w' sid = Some m"
    using memo_stores [OF assms [unfolded list_worksheets_map_def]] by simp
  then show ?thesis by (simp add: list_worksheets_map_def)
qed

text \<open>
  A worksheet whose title is in the memoised map is returned as it is: the same
  handle, no remote call, no change to the state.
\<close>

lemma get_or_create_existing:
  assumes "wsmap_cache w sid = Some m" "m name = Some h"
  shows "get_or_create_worksheet sid name headers w = (Inr h, w)"
  using assms by (simp add: get_or_create_worksheet_def list_worksheets_map_def)

lemma get_or_create_new:
  assumes "wsmap_cache w sid = Some m" "m name = None" "sheet_cache w sid = Some (Spreadsheet sid)"
    "book w sid = Some tabs" "find_tab name tabs = None" "faults w = []"
  shows "get_or_create_worksheet sid name (Some hs) w =
    (Inr \<lparr>ws_sheet = sid, ws_title = name\<rparr>,
     w\<lparr>calls := calls w @ AddWorksheet sid name 2000 26 #
                 (if hs = [] then [] else [Update \<lparr>ws_sheet = sid, ws_title = name\<rparr> ''A1'' [hs]]),
       book := (book w)(sid \<mapsto> tabs @ [\<lparr>tab_title = name, tab_rows = 2000, tab_cols = 26,
                                           tab_grid = (if hs = [] then [] else [hs])\<rparr>])\<rparr>)"
  using assms
  by (simp add: get_or_create_worksheet_def list_worksheets_map_def open_spreadsheet_def
      gs_add_worksheet_new default_rows_def default_cols_def safe_update_def gs_update_def
      grid_op_def lookup_ws_def modify_grid_def find_tab_snoc map_tab_snoc)

text \<open>
  C24. A title missing from the memoised map is created: afterwards the store holds a
  worksheet of that title with 2000 rows and 26 columns whose only row is the header
  (none when the header is empty), the handle returned names it, and the memoised map
  is left as it was.
\<close>

theorem get_or_create_creates:
  assumes "wsmap_cache w sid = Some m" "m name = None" "sheet_cache w sid = Some (Spreadsheet sid)"
    "book w sid = Some tabs" "find_tab name tabs = None" "faults w = []"
    "get_or_create_worksheet sid name (Some hs) w = (r, w')"
  shows "r = Inr \<lparr>ws_sheet = sid, ws_title = name\<rparr>
    \<and> lookup_ws w' \<lparr>ws_sheet = sid, ws_title = name\<rparr> =
        Some \<lparr>tab_title = name, tab_rows = 2000, tab_cols = 26, tab_grid = (if hs = [] then [] else [hs])\<rparr>
    \<and> wsmap_cache w' = wsmap_cache w"
  using get_or_create_new [OF assms(1-6), of hs] assms(5,7)
  by (auto simp: lookup_ws_def find_tab_snoc)

text \<open>
  C25. Because the memoised map does not learn of the worksheet just created, a second
  \<open>get_or_create_worksheet\<close> for the same new title in the same process calls
  \<open>add_worksheet\<close> again, and the store refuses it: the call fails with the
  sheet-exists \<open>APIError\<close> (status 400) instead of returning the existing worksheet.
\<close>

theorem get_or_create_twice_fails:
  assumes "wsmap_cache w sid = Some m" "m name = None" "sheet_cache w sid = Some (Spreadsheet sid)"
    "book w sid = Some tabs" "find_tab name tabs = None" "faults w = []"
  shows "\<exists>w1 w2. get_or_create_worksheet sid name (Some hs) w = (Inr \<lparr>ws_sheet = sid, ws_title = name\<rparr>, w1)
    \<and> get_or_create_worksheet sid name hs' w1 = (Inl (sheet_exists_error name), w2)"
  using get_or_create_new [OF assms, of hs] assms
  by (simp add: get_or_create_worksheet_def list_worksheets_map_def open_spreadsheet_def
      gs_add_worksheet_exists find_tab_snoc)

section \<open>Witnesses\<close>

theorem list_worksheets_map_memoised_witness:
  "\<exists>w'. list_worksheets_map ''s1'' example_world = (Inr [''ReadStatus'' \<mapsto> example_ws], w')
     \<and> wsmap_cache w' ''s1'' = Some [''ReadStatus'' \<mapsto> example_ws]
     \<and> list_worksheets_map ''s1'' w' = (Inr [''ReadStatus'' \<mapsto> example_ws], w')"
proof -
  have "fst (list_worksheets_map ''s1'' example_world) = Inr [''ReadStatus'' \<mapsto> example_ws]"
    by (simp add: list_worksheets_map_def memo_def open_spreadsheet_def get_client_def
        load_credentials_def gs_open_by_key_def gs_worksheets_def ws_map_of_def example_defs)
  then obtain w' where e: "list_worksheets_map ''s1'' example_world = (Inr [''ReadStatus'' \<mapsto> example_ws], w')"
    by (metis surjective_pairing)
  from e list_worksheets_map_memoised [OF e] show ?thesis by blast
qed

theorem get_or_create_creates_witness:
  "lookup_ws (snd (get_or_create_worksheet ''s1'' ''Articles'' (Some [''URL'']) registry_world))
     \<lparr>ws_sheet = ''s1'', ws_title = ''Articles''\<rparr>
   = Some \<lparr>tab_title = ''Articles'', tab_rows = 2000, tab_cols = 26, tab_grid = [[''URL'']]\<rparr>"
  using get_or_create_creates [of registry_world "''s1''" "[''ReadStatus'' \<mapsto> example_ws]" "''Articles''"
      "[example_tab]" "[''URL'']", OF _ _ _ _ _ _ surjective_pairing]
  by (simp add: registry_world_def example_defs find_tab_def)

theorem get_or_create_twice_fails_witness:
  "\<exists>w1 w2. get_or_create_worksheet ''s1'' ''Articles'' (Some [''URL'']) registry_world
             = (Inr \<lparr>ws_sheet = ''s1'', ws_title = ''Articles''\<rparr>, w1)
     \<and> get_or_create_worksheet ''s1'' ''Articles'' (Some [''URL'']) w1
             = (Inl (sheet_exists_error ''Articles''), w2)"
  by (rule get_or_create_twice_fails [of _ _ "[''ReadStatus'' \<mapsto> example_ws]" _ "[example_tab]"])
     (simp_all add: registry_world_def example_defs find_tab_def)

section \<open>Frame conditions\<close>

lemma keeps_memo [frame_rules]:
  assumes "keeps p body" "\<And>m w. p (put m w) = p w"
  shows "keeps p (memo get put k body)"
  unfolding keeps_def
proof
  fix w
  obtain r w1 where b: "body w = (r, w1)" by fastforce
  have "p w1 = p w" using keepsD [OF assms(1) b] .
  then show "p (snd (memo get put k body w)) = p w"
    using b assms(2) by (cases r) (auto simp: memo_def split: option.splits)
qed

lemma keeps_registry [frame_rules]:
  "keeps data_cache (open_spreadsheet sid)" "keeps data_cache (list_worksheets_map sid)"
  "keeps data_cache (get_or_create_worksheet sid name headers)"
proof -
  show o: "keeps data_cache (open_spreadsheet sid)" for sid
    unfolding open_spreadsheet_def
    by (intro keeps_memo keeps_rbind keeps_get_client keeps_gs_ops env_indep_caches) simp
  show l: "keeps data_cache (list_worksheets_map sid)" for sid
    unfolding list_worksheets_map_def
    by (intro keeps_memo keeps_rbind o keeps_gs_ops keeps_rreturn env_indep_caches) simp
  show "keeps data_cache (get_or_create_worksheet sid name headers)"
    unfolding get_or_create_worksheet_def
    by (intro keeps_rbind l o keeps_case_option keeps_if keeps_rreturn keeps_gs_ops keeps_safe_ops
        env_indep_caches)
qed

end
