(* ===== verification/ReadCache.thy ===== *)
theory ReadCache
  imports Registry
begin

text \<open>
  The Read Cache and the bulk writer of \<^verbatim>\<open>src/gsheets_io.py\<close> (lines 106--126).
  \<open>read_sheet_to_df\<close> resolves the worksheet through the Registry, fetches all its
  values under \<open>with_retry\<close> in one call and builds a data frame: no columns and no
  rows for an empty sheet, otherwise the first row as the column labels and the rest as
  the data rows.  \<open>@st.cache_data(ttl=60)\<close> keeps the frame with the time it was
  stored, keyed by the spreadsheet id and the sheet name, and serves it while it is
  younger than 60 s.  \<open>write_df_to_sheet\<close> clears a sheet and writes a frame's labels
  and rows from \<open>A1\<close>; a frame that the sheet can store (\<open>frame_storable\<close>) reads back
  unchanged, but the write leaves the cache as it is.
\<close>

section \<open>Definitions\<close>

definition ttl_ms :: nat where
  "ttl_ms = 60000"

definition empty_frame :: frame where
  "empty_frame = \<lparr>frame_cols = [], frame_rows = []\<rparr>"

definition frame_of_values :: "string list list \<Rightarrow> frame" where
  "frame_of_values vals =
     (if vals = [] then empty_frame
      else let header = hd vals; rows = tl vals in
        if rows = [] then \<lparr>frame_cols = header, frame_rows = []\<rparr>
        else \<lparr>frame_cols = header, frame_rows = rows\<rparr>)"

definition read_sheet_uncached :: "string \<Rightarrow> string \<Rightarrow> (frame, world) st" where
  "read_sheet_uncached sid name =
     rbind (get_or_create_worksheet sid name None) (\<lambda>h.
     rbind (safe_get_all_values h) (\<lambda>vals. rreturn (frame_of_values vals)))"

definition cache_fresh :: "world \<Rightarrow> string \<times> string \<Rightarrow> bool" where
  "cache_fresh w k = (case data_cache w k of None \<Rightarrow> False | Some (_, t) \<Rightarrow> clock w < t + ttl_ms)"

definition read_sheet_to_df :: "string \<Rightarrow> string \<Rightarrow> (frame, world) st" where
  "read_sheet_to_df sid name w =
     (if cache_fresh w (sid, name) then (Inr (fst (the (data_cache w (sid, name)))), w)
      else case read_sheet_uncached sid name w of
             (Inl e, w') \<Rightarrow> (Inl e, w')
           | (Inr fr, w') \<Rightarrow> (Inr fr, w'\<lparr>data_cache := (data_cache w')((sid, name) \<mapsto> (fr, clock w'))\<rparr>))"

text \<open>\<open>df.empty\<close>: a frame without columns or without rows.\<close>

definition frame_empty :: "frame \<Rightarrow> bool" where
  "frame_empty df \<longleftrightarrow> frame_cols df = [] \<or> frame_rows df = []"

definition write_df_to_sheet :: "string \<Rightarrow> string \<Rightarrow> frame \<Rightarrow> (unit, world) st" where
  "write_df_to_sheet sid name df =
     rbind (get_or_create_worksheet sid name (Some (frame_cols df))) (\<lambda>h.
     rbind (safe_clear h) (\<lambda>_.
       if frame_empty df then safe_update h ''A1'' [frame_cols df]
       else safe_update h ''A1'' ([frame_cols df] @ frame_rows df)))"

text \<open>The frames a sheet stores faithfully: at least one column, the last column
  label non-empty, every row as wide as the labels, and a non-empty cell in the last row
  (the Sheets API drops trailing empty cells and rows).\<close>

definition frame_storable :: "frame \<Rightarrow> bool" where
  "frame_storable df \<longleftrightarrow>
     frame_cols df \<noteq> [] \<and> last (frame_cols df) \<noteq> [] \<and>
     list_all (\<lambda>r. length r = length (frame_cols df)) (frame_rows df) \<and>
     trim_row (last (frame_cols df # frame_rows df)) \<noteq> []"

section \<open>Properties of the Read Cache\<close>

lemma write_df_eq:
  assumes "wsmap_cache w sid = Some m" "m name = Some h" "lookup_ws w h = Some t" "faults w = []"
    "frame_cols df \<noteq> []"
  shows "\<exists>w1. write_df_to_sheet sid name df w = (Inr (), w1)
    \<and> lookup_ws w1 h = Some (t\<lparr>tab_grid := frame_cols df # frame_rows df\<rparr>)
    \<and> wsmap_cache w1 = wsmap_cache w \<and> faults w1 = [] \<and> data_cache w1 = data_cache w \<and> clock w1 = clock w"
  using assms
  by (auto simp: write_df_to_sheet_def safe_clear_def safe_update_def gs_clear_def gs_update_def
      grid_op_def lookup_ws_modify_grid frame_empty_def)

lemma frame_of_values_Cons: "frame_of_values (cs # rs) = \<lparr>frame_cols = cs, frame_rows = rs\<rparr>"
  by (simp add: frame_of_values_def)

lemma sheet_values_storable:
  assumes "frame_storable df"
  shows "sheet_values (frame_cols df # frame_rows df) = frame_cols df # frame_rows df"
  using assms by (intro sheet_values_rect) (auto simp: frame_storable_def list_all_iff)


lemma read_miss_eq:
  assumes "\<not> cache_fresh w (sid, name)" "wsmap_cache w sid = Some m" "m name = Some h"
    "lookup_ws w h = Some t" "faults w = []"
  shows "read_sheet_to_df sid name w =
    (Inr (frame_of_values (sheet_values (tab_grid t))),
     w\<lparr>calls := calls w @ [GetAllValues h],
       data_cache := (data_cache w)((sid, name) \<mapsto> (frame_of_values (sheet_values (tab_grid t)), clock w))\<rparr>)"
  using assms
  by (simp add: read_sheet_to_df_def read_sheet_uncached_def safe_get_all_values_def gs_get_all_values_def)


text \<open>
  A read of a sheet whose cached frame is younger than the TTL returns that frame
  and changes nothing: no remote call.
\<close>

lemma read_cache_hit:
  assumes "data_cache w (sid, name) = Some (fr, t)" "clock w < t + ttl_ms"
  shows "read_sheet_to_df sid name w = (Inr fr, w)"
  using assms by (simp add: read_sheet_to_df_def cache_fresh_def)

text \<open>
  C27. A read with no fresh cached frame, of a sheet the Registry knows, makes exactly one
  remote call (\<open>get_all_values\<close>), returns the frame built from the sheet's values, and
  caches it with the current time, so that reads in the next 60 s are served from the
  cache.
\<close>

theorem read_cache_miss:
  assumes "\<not> cache_fresh w (sid, name)" "wsmap_cache w sid = Some m" "m name = Some h"
    "lookup_ws w h = Some t" "faults w = []"
  shows "read_sheet_to_df sid name w =
    (Inr (frame_of_values (sheet_values (tab_grid t))),
     w\<lparr>calls := calls w @ [GetAllValues h],
       data_cache := (data_cache w)((sid, name) \<mapsto> (frame_of_values (sheet_values (tab_grid t)), clock w))\<rparr>)
    \<and> cache_fresh (w\<lparr>calls := calls w @ [GetAllValues h],
       data_cache := (data_cache w)((sid, name) \<mapsto> (frame_of_values (sheet_values (tab_grid t)), clock w))\<rparr>) (sid, name)"
  using read_miss_eq [OF assms] by (simp add: cache_fresh_def ttl_ms_def)


text \<open>
  C28. Round trip of the bulk writer: after \<open>write_df_to_sheet\<close> of a frame the sheet can
  store (one remote clear, one write from \<open>A1\<close>), a read that is not served from the
  cache returns that frame.
\<close>

theorem write_read_roundtrip:
  assumes "frame_storable df" "wsmap_cache w sid = Some m" "m name = Some h" "lookup_ws w h = Some t"
    "faults w = []" "write_df_to_sheet sid name df w = (r, w1)" "\<not> cache_fresh w1 (sid, name)"
  shows "r = Inr () \<and> fst (read_sheet_to_df sid name w1) = Inr df"
proof -
  have "frame_cols df \<noteq> []" using assms(1) by (simp add: frame_storable_def)
  then obtain w1' where w: "write_df_to_sheet sid name df w = (Inr (), w1')"
    "lookup_ws w1' h = Some (t\<lparr>tab_grid := frame_cols df # frame_rows df\<rparr>)"
    "wsmap_cache w1' = wsmap_cache w" "faults w1' = []"
    using write_df_eq [OF assms(2-5)] by blast
  with assms(6) have r: "r = Inr ()" "w1 = w1'" by simp_all
  have "fst (read_sheet_to_df sid name w1) = Inr (frame_of_values (sheet_values (frame_cols df # frame_rows df)))"
    using read_miss_eq [of w1 sid name m h] assms(2,3,7) w r(2) by simp
  then show ?thesis using r sheet_values_storable [OF assms(1)] by (simp add: frame_of_values_Cons)
qed

text \<open>
  C29. The bulk writer does not invalidate the Read Cache: a frame of the sheet cached
  less than 60 s before a successful \<open>write_df_to_sheet\<close> is still what
  \<open>read_sheet_to_df\<close> returns afterwards, without a remote call, until it expires.
\<close>

theorem write_keeps_stale_cache:
  assumes "wsmap_cache w sid = Some m" "m name = Some h" "lookup_ws w h = Some t" "faults w = []"
    "frame_cols df \<noteq> []" "data_cache w (sid, name) = Some (fr, t0)" "clock w < t0 + ttl_ms"
    "write_df_to_sheet sid name df w = (r, w1)"
  shows "r = Inr () \<and> read_sheet_to_df sid name w1 = (Inr fr, w1)"
proof -
  obtain w1' where w: "write_df_to_sheet sid name df w = (Inr (), w1')"
    "data_cache w1' = data_cache w" "clock w1' = clock w"
    using write_df_eq [OF assms(1-5)] by blast
  with assms(6-8) show ?thesis by (simp add: read_sheet_to_df_def cache_fresh_def)
qed

text \<open>
  The frame \<open>read_sheet_to_df\<close> builds is well shaped: every data row is exactly as
  wide as the column labels.
\<close>

lemma frame_rows_width:
  "r \<in> set (frame_rows (frame_of_values (sheet_values g))) \<Longrightarrow>
   length r = length (frame_cols (frame_of_values (sheet_values g)))"
proof -
  assume r: "r \<in> set (frame_rows (frame_of_values (sheet_values g)))"
  then obtain hd_row rows where sv: "sheet_values g = hd_row # rows" "r \<in> set rows"
    by (cases "sheet_values g") (auto simp: frame_of_values_def empty_frame_def split: if_splits)
  then show ?thesis
    using sheet_values_width [of r g] sheet_values_width [of hd_row g] by (simp add: frame_of_values_Cons)
qed

text \<open>
  C30. The time-to-live of \<open>@st.cache_data(ttl=60)\<close>, with the clock in
  milliseconds: a frame cached at time \<open>t0\<close> is served, with no remote call and no
  change, while the clock is below \<open>t0 + 60000\<close>; from then on a read fetches the
  sheet again with one \<open>get_all_values\<close>, returns the sheet's current frame and caches
  it with the current time.
\<close>

theorem read_cache_ttl:
  assumes "data_cache w (sid, name) = Some (fr, t0)" "wsmap_cache w sid = Some m" "m name = Some h"
    "lookup_ws w h = Some t" "faults w = []"
  shows "fst (read_sheet_to_df sid name w)
      = Inr (if clock w < t0 + 60000 then fr else frame_of_values (sheet_values (tab_grid t)))
    \<and> calls (snd (read_sheet_to_df sid name w))
      = (if clock w < t0 + 60000 then calls w else calls w @ [GetAllValues h])
    \<and> data_cache (snd (read_sheet_to_df sid name w)) (sid, name)
      = Some (if clock w < t0 + 60000 then (fr, t0) else (frame_of_values (sheet_values (tab_grid t)), clock w))"
proof (cases "clock w < t0 + 60000")
  case True
  then show ?thesis using read_cache_hit [OF assms(1)] assms(1) by (simp add: ttl_ms_def)
next
  case False
  then have "\<not> cache_fresh w (sid, name)" using assms(1) by (simp add: cache_fresh_def ttl_ms_def)
  from read_miss_eq [OF this assms(2-5)] False show ?thesis by simp
qed

section \<open>Witnesses\<close>

theorem read_cache_miss_witness:
  "fst (read_sheet_to_df ''s1'' ''ReadStatus'' registry_world)
     = Inr \<lparr>frame_cols = [''ItemKey'', ''Read''], frame_rows = []\<rparr>
   \<and> cache_fresh (snd (read_sheet_to_df ''s1'' ''ReadStatus'' registry_world)) (''s1'', ''ReadStatus'')"
proof -
  have "\<not> cache_fresh registry_world (''s1'', ''ReadStatus'')"
    by (simp add: cache_fresh_def registry_world_def example_defs)
  moreover have "lookup_ws registry_world example_ws = Some example_tab"
    by (simp add: registry_world_def example_defs lookup_ws_def find_tab_def)
  ultimately have "read_sheet_to_df ''s1'' ''ReadStatus'' registry_world =
    (Inr (frame_of_values (sheet_values (tab_grid example_tab))),
     registry_world\<lparr>calls := calls registry_world @ [GetAllValues example_ws],
       data_cache := (data_cache registry_world)((''s1'', ''ReadStatus'') \<mapsto>
          (frame_of_values (sheet_values (tab_grid example_tab)), clock registry_world))\<rparr>)
    \<and> cache_fresh (registry_world\<lparr>calls := calls registry_world @ [GetAllValues example_ws],
       data_cache := (data_cache registry_world)((''s1'', ''ReadStatus'') \<mapsto>
          (frame_of_values (sheet_values (tab_grid example_tab)), clock registry_world))\<rparr>) (''s1'', ''ReadStatus'')"
    by (intro read_cache_miss [of _ _ _ "[''ReadStatus'' \<mapsto> example_ws]"])
       (simp_all add: registry_world_def example_defs)
  then show ?thesis
    by (simp add: example_defs frame_of_values_def sheet_values_simps)
qed


text \<open>The frame written by the witnesses: the status header and one row.\<close>

lemma registry_world_ready:
  "wsmap_cache registry_world ''s1'' = Some [''ReadStatus'' \<mapsto> example_ws]"
  "lookup_ws registry_world example_ws = Some example_tab" "faults registry_world = []"
  "data_cache registry_world = Map.empty"
  by (simp_all add: registry_world_def example_defs lookup_ws_def find_tab_def)

theorem write_read_roundtrip_witness:
  "fst (write_df_to_sheet ''s1'' ''ReadStatus''
          \<lparr>frame_cols = [''ItemKey'', ''Read''], frame_rows = [[''http://a'', ''true'']]\<rparr> registry_world) = Inr ()
   \<and> fst (read_sheet_to_df ''s1'' ''ReadStatus''
          (snd (write_df_to_sheet ''s1'' ''ReadStatus''
                 \<lparr>frame_cols = [''ItemKey'', ''Read''], frame_rows = [[''http://a'', ''true'']]\<rparr> registry_world)))
       = Inr \<lparr>frame_cols = [''ItemKey'', ''Read''], frame_rows = [[''http://a'', ''true'']]\<rparr>"
proof -
  let ?df = "\<lparr>frame_cols = [''ItemKey'', ''Read''], frame_rows = [[''http://a'', ''true'']]\<rparr>"
  obtain w1 where w1: "write_df_to_sheet ''s1'' ''ReadStatus'' ?df registry_world = (Inr (), w1)"
    "data_cache w1 = data_cache registry_world"
    using write_df_eq [OF registry_world_ready(1) _ registry_world_ready(2,3), of "''ReadStatus''" ?df] by auto
  have "\<not> cache_fresh w1 (''s1'', ''ReadStatus'')"
    using w1(2) by (simp add: cache_fresh_def registry_world_ready(4))
  moreover have "frame_storable ?df" by (simp add: frame_storable_def trim_row_def)
  ultimately show ?thesis
    using write_read_roundtrip [OF _ registry_world_ready(1) _ registry_world_ready(2,3) w1(1)] w1(1) by simp
qed

theorem write_keeps_stale_cache_witness:
  "read_sheet_to_df ''s1'' ''ReadStatus''
     (snd (write_df_to_sheet ''s1'' ''ReadStatus''
            \<lparr>frame_cols = [''ItemKey'', ''Read''], frame_rows = [[''http://a'', ''true'']]\<rparr>
            (registry_world\<lparr>data_cache := [(''s1'', ''ReadStatus'') \<mapsto> (empty_frame, 0)]\<rparr>)))
   = (Inr empty_frame,
      snd (write_df_to_sheet ''s1'' ''ReadStatus''
            \<lparr>frame_cols = [''ItemKey'', ''Read''], frame_rows = [[''http://a'', ''true'']]\<rparr>
            (registry_world\<lparr>data_cache := [(''s1'', ''ReadStatus'') \<mapsto> (empty_frame, 0)]\<rparr>)))"
proof -
  let ?w = "registry_world\<lparr>data_cache := [(''s1'', ''ReadStatus'') \<mapsto> (empty_frame, 0)]\<rparr>"
  have h: "wsmap_cache ?w ''s1'' = Some [''ReadStatus'' \<mapsto> example_ws]"
    "lookup_ws ?w example_ws = Some example_tab" "faults ?w = []"
    "data_cache ?w (''s1'', ''ReadStatus'') = Some (empty_frame, 0)" "clock ?w < 0 + ttl_ms"
    by (simp_all add: registry_world_def example_defs lookup_ws_def find_tab_def ttl_ms_def)
  from write_keeps_stale_cache [OF h(1) _ h(2,3) _ h(4,5) surjective_pairing] show ?thesis by simp
qed

theorem read_cache_ttl_witness:
  "fst (read_sheet_to_df ''s1'' ''ReadStatus''
          (registry_world\<lparr>data_cache := [(''s1'', ''ReadStatus'') \<mapsto> (empty_frame, 1000)], clock := 60999\<rparr>))
     = Inr empty_frame
   \<and> fst (read_sheet_to_df ''s1'' ''ReadStatus''
          (registry_world\<lparr>data_cache := [(''s1'', ''ReadStatus'') \<mapsto> (empty_frame, 1000)], clock := 61000\<rparr>))
     = Inr \<lparr>frame_cols = [''ItemKey'', ''Read''], frame_rows = []\<rparr>"
proof -
  have h: "data_cache (registry_world\<lparr>data_cache := [(''s1'', ''ReadStatus'') \<mapsto> (empty_frame, 1000)], clock := n\<rparr>)
      (''s1'', ''ReadStatus'') = Some (empty_frame, 1000)"
    "wsmap_cache (registry_world\<lparr>data_cache := [(''s1'', ''ReadStatus'') \<mapsto> (empty_frame, 1000)], clock := n\<rparr>) ''s1''
      = Some [''ReadStatus'' \<mapsto> example_ws]"
    "lookup_ws (registry_world\<lparr>data_cache := [(''s1'', ''ReadStatus'') \<mapsto> (empty_frame, 1000)], clock := n\<rparr>) example_ws
      = Some example_tab"
    "faults (registry_world\<lparr>data_cache := [(''s1'', ''ReadStatus'') \<mapsto> (empty_frame, 1000)], clock := n\<rparr>) = []"
    for n :: nat
    by (simp_all add: registry_world_def example_defs lookup_ws_def find_tab_def)
  have m: "[''ReadStatus'' \<mapsto> example_ws] ''ReadStatus'' = Some example_ws" by simp
  have "tab_grid example_tab = [[''ItemKey'', ''Read'']]" by (simp add: example_defs)
  then show ?thesis
    using read_cache_ttl [OF h(1,2) [where n = 60999] m h(3,4) [where n = 60999]]
      read_cache_ttl [OF h(1,2) [where n = 61000] m h(3,4) [where n = 61000]]
    by (simp add: frame_of_values_def sheet_values_simps)
qed

end
