(* ===== verification/Upsert.thy ===== *)
theory Upsert
  imports ReadCache
begin

text \<open>
  The Upsert Engine, \<open>upsert_read_status\<close> of \<^verbatim>\<open>src/gsheets_io.py\<close> (lines
  131--147): it resolves the \<open>ReadStatus\<close> worksheet (created with the header
  \<open>ItemKey, Read\<close> when missing), fetches its values bypassing the Read Cache, indexes
  the data rows by their first cell (a later row wins), and either updates the second
  cell of the indexed row or appends a row \<open>[key, flag]\<close>; then it clears the whole
  data cache.  The index of the code is \<open>build_index\<close>; \<open>last_match\<close> is its
  reference (the last matching row).
\<close>

section \<open>Definitions\<close>

definition status_sheet :: string where
  "status_sheet = ''ReadStatus''"

definition status_header :: "string list" where
  "status_header = [''ItemKey'', ''Read'']"

definition flag_str :: "bool \<Rightarrow> string" where
  "flag_str b = (if b then ''true'' else ''false'')"

text \<open>\<open>vals[1:] if len(vals) > 1 else []\<close>\<close>

definition status_rows :: "string list list \<Rightarrow> string list list" where
  "status_rows vals = (if length vals > 1 then tl vals else [])"

text \<open>\<open>{r[0]: i for i, r in enumerate(rows, start=2)}\<close>: \<open>r[0]\<close> raises
  \<open>IndexError\<close> on an empty row.\<close>

fun build_index :: "nat \<Rightarrow> string list list \<Rightarrow> (string \<rightharpoonup> nat) \<Rightarrow> exc + (string \<rightharpoonup> nat)" where
  "build_index i [] m = Inr m"
| "build_index i (r # rs) m =
     (case r of [] \<Rightarrow> Inl IndexError | k # _ \<Rightarrow> build_index (Suc i) rs (m(k \<mapsto> i)))"

definition clear_data_cache :: "(unit, world) st" where
  "clear_data_cache w = (Inr (), w\<lparr>data_cache := Map.empty\<rparr>)"

definition upsert_read_status :: "string \<Rightarrow> string \<Rightarrow> bool \<Rightarrow> (unit, world) st" where
  "upsert_read_status sid key flag =
     rbind (get_or_create_worksheet sid status_sheet (Some status_header)) (\<lambda>h.
     rbind (safe_get_all_values h) (\<lambda>vals.
       case build_index 2 (status_rows vals) Map.empty of
         Inl e \<Rightarrow> rraise e
       | Inr index \<Rightarrow>
           rbind (case index key of
                    Some row_no \<Rightarrow> safe_update_cell h row_no 2 (flag_str flag)
                  | None \<Rightarrow> safe_append_row h [key, flag_str flag])
             (\<lambda>_. clear_data_cache)))"

text \<open>The reference index: the sheet row (counting the header as row 1 when \<open>i = 2\<close>)
  of the last row whose first cell is the key.\<close>

definition last_match :: "nat \<Rightarrow> string list list \<Rightarrow> string \<rightharpoonup> nat" where
  "last_match i rows k =
     (let ps = filter (\<lambda>p. hd (rows ! p) = k) [0..<length rows] in
      if ps = [] then None else Some (i + last ps))"

text \<open>The Registry knows the status worksheet \<open>h\<close> of spreadsheet \<open>sid\<close> and the
  store holds it as \<open>t\<close>.\<close>

definition status_ready :: "world \<Rightarrow> string \<Rightarrow> ws \<Rightarrow> tab \<Rightarrow> bool" where
  "status_ready w sid h t \<longleftrightarrow>
     (case wsmap_cache w sid of None \<Rightarrow> False | Some m \<Rightarrow> m status_sheet = Some h) \<and> lookup_ws w h = Some t"

text \<open>The status sheet as \<open>upsert_read_status\<close> keeps it: the header
  \<open>ItemKey, Read\<close> and data rows of two cells with a non-empty flag.\<close>

definition status_wf :: "string list list \<Rightarrow> bool" where
  "status_wf g \<longleftrightarrow> g \<noteq> [] \<and> hd g = status_header \<and> (\<forall>r \<in> set (tl g). length r = 2 \<and> r ! 1 \<noteq> [])"

text \<open>A world whose spreadsheet \<open>s1\<close> holds the status sheet \<open>g\<close>, known to the
  Registry (for the witnesses).\<close>

definition status_world :: "string list list \<Rightarrow> world" where
  "status_world g = example_world\<lparr>book := [''s1'' \<mapsto> [example_tab\<lparr>tab_grid := g\<rparr>]],
     wsmap_cache := [''s1'' \<mapsto> [status_sheet \<mapsto> example_ws]]\<rparr>"

section \<open>The index\<close>

lemma build_index_snoc:
  "build_index i (rs @ [r]) m =
     (case build_index i rs m of
        Inl e \<Rightarrow> Inl e
      | Inr m' \<Rightarrow> (case r of [] \<Rightarrow> Inl IndexError | k # _ \<Rightarrow> Inr (m'(k \<mapsto> i + length rs))))"
  by (induction rs arbitrary: i m) (auto split: list.splits sum.splits)

lemma last_match_snoc:
  "last_match i (rs @ [r]) = (last_match i rs)(hd r \<mapsto> i + length rs)"
proof
  fix k
  have "filter (\<lambda>p. hd ((rs @ [r]) ! p) = k) [0..<length rs] = filter (\<lambda>p. hd (rs ! p) = k) [0..<length rs]"
    by (rule filter_cong) (simp_all add: nth_append)
  then show "last_match i (rs @ [r]) k = ((last_match i rs)(hd r \<mapsto> i + length rs)) k"
    by (auto simp: last_match_def Let_def)
qed

lemma last_match_Nil [simp]: "last_match i [] = Map.empty"
  by (simp add: last_match_def fun_eq_iff)

lemma build_index_last_match:
  "(\<forall>r \<in> set rows. r \<noteq> []) \<Longrightarrow> build_index i rows Map.empty = Inr (last_match i rows)"
proof (induction rows rule: rev_induct)
  case (snoc r rs)
  then obtain k t where "r = k # t" by (cases r) auto
  with snoc show ?case by (simp add: build_index_snoc last_match_snoc fun_eq_iff)
qed simp

lemma build_index_empty_row: "[] \<in> set rows \<Longrightarrow> build_index i rows m = Inl IndexError"
  by (induction rows arbitrary: i m) (auto split: list.splits)

lemma last_match_Some:
  "last_match i rows k = Some j \<Longrightarrow>
     i \<le> j \<and> j - i < length rows \<and> hd (rows ! (j - i)) = k
     \<and> (\<forall>p. j - i < p \<and> p < length rows \<longrightarrow> hd (rows ! p) \<noteq> k)"
proof (induction rows arbitrary: j rule: rev_induct)
  case (snoc r rs)
  then show ?case
    by (cases "hd r = k") (auto simp: last_match_snoc nth_append less_Suc_eq split: if_splits)
qed simp

lemma last_match_None: "last_match i rows k = None \<longleftrightarrow> k \<notin> hd ` set rows"
  by (induction rows rule: rev_induct) (auto simp: last_match_snoc)


lemma status_rows_subset: "set (status_rows vals) \<subseteq> set vals"
  by (cases vals) (auto simp: status_rows_def)

lemma status_index:
  "build_index 2 (status_rows (sheet_values g)) Map.empty = Inr (last_match 2 (status_rows (sheet_values g)))"
  using status_rows_subset sheet_values_rows by (blast intro: build_index_last_match)

section \<open>The upsert, branch by branch\<close>

lemma status_ready_sleep [simp]: "status_ready (sleep d w) sid h t = status_ready w sid h t"
  by (simp add: status_ready_def)

lemma status_ready_hit:
  "status_ready w sid h t \<Longrightarrow> get_or_create_worksheet sid status_sheet hs w = (Inr h, w)"
  by (auto simp: status_ready_def split: option.splits)

lemma status_ready_read:
  assumes "status_ready w sid h t" "faults w = []"
  shows "safe_get_all_values h w = (Inr (sheet_values (tab_grid t)), w\<lparr>calls := calls w @ [GetAllValues h]\<rparr>)"
  using assms by (simp add: status_ready_def safe_get_all_values_def gs_get_all_values_def)

lemma upsert_absent_eq:
  assumes "status_ready w sid h t" "faults w = []"
    "key \<notin> hd ` set (status_rows (sheet_values (tab_grid t)))"
  shows "upsert_read_status sid key flag w =
    (Inr (), (modify_grid h (\<lambda>g. g @ [[key, flag_str flag]])
               (w\<lparr>calls := calls w @ [GetAllValues h, AppendRow h [key, flag_str flag]]\<rparr>))\<lparr>data_cache := Map.empty\<rparr>)"
proof -
  have none: "last_match 2 (status_rows (sheet_values (tab_grid t))) key = None"
    using assms(3) by (simp add: last_match_None)
  have lk: "lookup_ws w h = Some t" using assms(1) by (simp add: status_ready_def)
  show ?thesis
    using assms(2) lk
    by (simp add: upsert_read_status_def status_ready_hit [OF assms(1)] status_ready_read [OF assms(1,2)]
        status_index none safe_append_row_def gs_append_row_def grid_op_def clear_data_cache_def)
qed

lemma upsert_present_eq:
  assumes "status_ready w sid h t" "faults w = []"
    "last_match 2 (status_rows (sheet_values (tab_grid t))) key = Some j"
  shows "upsert_read_status sid key flag w =
    (Inr (), (modify_grid h (\<lambda>g. set_cell g (j - 1) 1 (user_entered (flag_str flag)))
               (w\<lparr>calls := calls w @ [GetAllValues h, UpdateCell h j 2 (flag_str flag)]\<rparr>))\<lparr>data_cache := Map.empty\<rparr>)
    \<and> 2 \<le> j \<and> j - 1 < length (tab_grid t)"
proof -
  let ?vals = "sheet_values (tab_grid t)"
  from last_match_Some [OF assms(3)]
  have j: "2 \<le> j" "j - 2 < length (status_rows ?vals)" by auto
  then have "j - 1 < length ?vals"
    by (auto simp: status_rows_def split: if_splits)
  then have len: "j - 1 < length (tab_grid t)"
    using length_sheet_values [of "tab_grid t"] by linarith
  have lk: "lookup_ws w h = Some t" using assms(1) by (simp add: status_ready_def)
  have "upsert_read_status sid key flag w =
    (Inr (), (modify_grid h (\<lambda>g. set_cell g (j - 1) 1 (user_entered (flag_str flag)))
               (w\<lparr>calls := calls w @ [GetAllValues h, UpdateCell h j 2 (flag_str flag)]\<rparr>))\<lparr>data_cache := Map.empty\<rparr>)"
    using assms(2,3) lk j(1)
    by (simp add: upsert_read_status_def status_ready_hit [OF assms(1)] status_ready_read [OF assms(1,2)]
        status_index safe_update_cell_def gs_update_cell_def grid_op_def clear_data_cache_def)
  with j(1) len show ?thesis by simp
qed

section \<open>The status-sheet invariant\<close>

lemma status_wf_rows:
  assumes "status_wf g" "r \<in> set g"
  shows "r \<noteq> [] \<and> last r \<noteq> [] \<and> length r = 2"
proof (cases "r = hd g")
  case True
  with assms show ?thesis by (simp add: status_wf_def status_header_def)
next
  case False
  with assms have "r \<in> set (tl g)" by (cases g) (auto simp: status_wf_def)
  with assms have "length r = 2" "r ! 1 \<noteq> []" by (auto simp: status_wf_def)
  moreover from \<open>length r = 2\<close> have "last r = r ! 1"
    by (subst last_conv_nth) auto
  ultimately show ?thesis by auto
qed

lemma sheet_values_status_wf:
  assumes "status_wf g"
  shows "sheet_values g = g"
proof -
  have rows: "\<And>r. r \<in> set g \<Longrightarrow> r \<noteq> [] \<and> last r \<noteq> [] \<and> length r = 2"
    using status_wf_rows [OF assms] by blast
  have ne: "g \<noteq> []" using assms by (simp add: status_wf_def)
  then have "hd g \<in> set g" "last g \<in> set g" by simp_all
  with rows ne show ?thesis
    by (intro sheet_values_rect) (auto simp: trim_row_id)
qed

lemma set_cell_in_range:
  "i < length g \<Longrightarrow> j < length (g ! i) \<Longrightarrow> set_cell g i j v = g[i := (g ! i)[j := v]]"
  by (simp add: set_cell_def Let_def)

lemma status_wf_append: "status_wf g \<Longrightarrow> v \<noteq> [] \<Longrightarrow> status_wf (g @ [[k, v]])"
  by (cases g) (auto simp: status_wf_def)

lemma status_wf_set_cell:
  assumes "status_wf g" "1 \<le> i" "i < length g" "v \<noteq> []"
  shows "status_wf (set_cell g i 1 v)"
proof -
  obtain hd_row rs where g: "g = hd_row # rs" using assms(1) by (cases g) (auto simp: status_wf_def)
  obtain i' where i: "i = Suc i'" using assms(2) by (cases i) auto
  have row: "rs ! i' \<in> set rs" using assms(3) g i by simp
  then have len2: "length (rs ! i') = 2" using assms(1) g by (simp add: status_wf_def)
  have "set_cell g i 1 v = hd_row # rs[i' := (rs ! i')[1 := v]]"
    using assms(3) g i len2 by (simp add: set_cell_in_range)
  moreover have "\<forall>r \<in> set (rs[i' := (rs ! i')[1 := v]]). length r = 2 \<and> r ! 1 \<noteq> []"
    using assms(1,4) g len2 set_update_subset_insert [of rs i' "(rs ! i')[1 := v]"]
    by (auto simp: status_wf_def)
  ultimately show ?thesis using assms(1) g by (simp add: status_wf_def)
qed

lemma flag_cells_nonempty [simp]: "flag_str b \<noteq> []" "user_entered (flag_str b) \<noteq> []"
  by (simp_all add: flag_str_def user_entered_def)

section \<open>Properties of the Upsert Engine\<close>

text \<open>
  C4. Upserting a key that no data row of the status sheet holds appends exactly one row
  \<open>[key, flag]\<close> at the end of the sheet (one read, one append) and clears the data
  cache; nothing else changes.
\<close>

theorem upsert_appends_absent:
  assumes "status_ready w sid h t" "faults w = []"
    "key \<notin> hd ` set (status_rows (sheet_values (tab_grid t)))"
  shows "upsert_read_status sid key flag w =
    (Inr (), (modify_grid h (\<lambda>g. g @ [[key, flag_str flag]])
               (w\<lparr>calls := calls w @ [GetAllValues h, AppendRow h [key, flag_str flag]]\<rparr>))\<lparr>data_cache := Map.empty\<rparr>)
    \<and> lookup_ws (modify_grid h (\<lambda>g. g @ [[key, flag_str flag]]) w) h
      = Some (t\<lparr>tab_grid := tab_grid t @ [[key, flag_str flag]]\<rparr>)"
  using upsert_absent_eq [OF assms] assms(1)
  by (simp add: lookup_ws_modify_grid status_ready_def)

text \<open>
  C5. Upserting a key that some data row holds writes the flag into the second cell of
  the last such row, sheet row \<open>j\<close> (one read, one single-cell write); the number of
  rows stays the same and the data cache is cleared.
\<close>

theorem upsert_updates_present:
  assumes "status_ready w sid h t" "faults w = []"
    "last_match 2 (status_rows (sheet_values (tab_grid t))) key = Some j"
  shows "upsert_read_status sid key flag w =
    (Inr (), (modify_grid h (\<lambda>g. set_cell g (j - 1) 1 (user_entered (flag_str flag)))
               (w\<lparr>calls := calls w @ [GetAllValues h, UpdateCell h j 2 (flag_str flag)]\<rparr>))\<lparr>data_cache := Map.empty\<rparr>)
    \<and> 2 \<le> j \<and> length (set_cell (tab_grid t) (j - 1) 1 (user_entered (flag_str flag))) = length (tab_grid t)"
  using upsert_present_eq [OF assms] length_set_cell by blast

text \<open>
  C6. The index of line 139 never raises \<open>IndexError\<close> on what \<open>get_all_values\<close>
  returns (every row it returns has a first cell), and it maps each key to the sheet row
  of the last data row that holds it: a later duplicate wins.
\<close>

theorem index_last_occurrence:
  "build_index 2 (status_rows (sheet_values g)) Map.empty = Inr (last_match 2 (status_rows (sheet_values g)))"
  using status_rows_subset sheet_values_rows by (blast intro: build_index_last_match)


text \<open>
  C8. The data cache is invalidated only by a successful upsert, after its write: an
  upsert that returns clears the whole cache, and an upsert that fails at any step
  (resolving the sheet, reading it, indexing, writing) leaves the cache as it was.
\<close>

theorem upsert_cache_invalidation:
  assumes "upsert_read_status sid key flag w = (r, w')"
  shows "data_cache w' = (case r of Inl _ \<Rightarrow> data_cache w | Inr _ \<Rightarrow> Map.empty)"
proof -
  obtain r1 w1 where s1: "get_or_create_worksheet sid status_sheet (Some status_header) w = (r1, w1)"
    by fastforce
  have d1: "data_cache w1 = data_cache w" using keepsD [OF keeps_registry(3) s1] .
  show ?thesis
  proof (cases r1)
    case (Inl e)
    with assms s1 d1 show ?thesis by (auto simp: upsert_read_status_def)
  next
    case (Inr h)
    obtain r2 w2 where s2: "safe_get_all_values h w1 = (r2, w2)" by fastforce
    have d2: "data_cache w2 = data_cache w1"
      using keepsD [OF keeps_safe_ops(2) [OF env_indep_caches(1)] s2] .
    show ?thesis
    proof (cases r2)
      case (Inl e)
      with assms s1 s2 Inr d1 d2 show ?thesis by (auto simp: upsert_read_status_def)
    next
      case (Inr vals)
      let ?put_flag = "\<lambda>index. case index key of
          Some row_no \<Rightarrow> safe_update_cell h row_no 2 (flag_str flag)
        | None \<Rightarrow> safe_append_row h [key, flag_str flag]"
      show ?thesis
      proof (cases "build_index 2 (status_rows vals) Map.empty")
        case (Inl e)
        with assms s1 s2 \<open>r1 = Inr h\<close> Inr d1 d2 show ?thesis by (auto simp: upsert_read_status_def)
      next
        case idx: (Inr index)
        obtain r3 w3 where s3: "?put_flag index w2 = (r3, w3)" by fastforce
        have "keeps data_cache (?put_flag index)"
          by (intro keeps_case_option keeps_safe_ops env_indep_caches)
        from keepsD [OF this s3] have d3: "data_cache w3 = data_cache w2" .
        from assms s1 s2 s3 \<open>r1 = Inr h\<close> Inr idx d1 d2 d3 show ?thesis
          by (cases r3) (auto simp: upsert_read_status_def clear_data_cache_def)
      qed
    qed
  qed
qed

text \<open>
  C7. The upsert keeps the status sheet well formed: from a sheet whose first row is the
  header \<open>ItemKey, Read\<close> and whose data rows are pairs with a non-empty flag, every
  upsert returns and leaves such a sheet.
\<close>

theorem upsert_preserves_status_wf:
  assumes "status_ready w sid h t" "faults w = []" "status_wf (tab_grid t)"
    "upsert_read_status sid key flag w = (r, w')"
  shows "r = Inr () \<and> (\<exists>t'. lookup_ws w' h = Some t' \<and> status_wf (tab_grid t'))"
proof -
  have lk: "lookup_ws w h = Some t" using assms(1) by (simp add: status_ready_def)
  show ?thesis
  proof (cases "last_match 2 (status_rows (sheet_values (tab_grid t))) key")
    case None
    then have "key \<notin> hd ` set (status_rows (sheet_values (tab_grid t)))"
      by (simp add: last_match_None)
    from upsert_absent_eq [OF assms(1,2) this, of flag] assms(3,4) lk show ?thesis
      by (auto simp: lookup_ws_modify_grid intro: status_wf_append)
  next
    case (Some j)
    note eq = upsert_present_eq [OF assms(1,2) Some, of flag]
    have "status_wf (set_cell (tab_grid t) (j - 1) 1 (user_entered (flag_str flag)))"
      using eq assms(3) by (intro status_wf_set_cell) auto
    with eq assms(4) lk show ?thesis
      by (auto simp: lookup_ws_modify_grid)
  qed
qed

section \<open>Witnesses\<close>

lemma status_world_ready:
  "status_ready (status_world g) ''s1'' example_ws (example_tab\<lparr>tab_grid := g\<rparr>)"
  by (simp add: status_ready_def status_world_def example_defs status_sheet_def lookup_ws_def find_tab_def)

text \<open>Upserts on the example world, step by step.\<close>

lemma status_world_calls_ready:
  "status_ready ((status_world g)\<lparr>calls := cs\<rparr>) ''s1'' example_ws (example_tab\<lparr>tab_grid := g\<rparr>)"
  by (simp add: status_ready_def status_world_def example_defs status_sheet_def lookup_ws_def find_tab_def)

lemma status_world_upsert_absent:
  assumes "key \<notin> hd ` set (status_rows (sheet_values g))"
  shows "upsert_read_status ''s1'' key b ((status_world g)\<lparr>calls := cs\<rparr>) =
    (Inr (), (status_world (g @ [[key, flag_str b]]))\<lparr>calls := cs @ [GetAllValues example_ws, AppendRow example_ws [key, flag_str b]]\<rparr>)"
proof -
  have "key \<notin> hd ` set (status_rows (sheet_values (tab_grid (example_tab\<lparr>tab_grid := g\<rparr>))))"
    using assms by simp
  from upsert_absent_eq [OF status_world_calls_ready _ this, where flag = b] show ?thesis
    by (simp add: status_world_def example_defs modify_grid_def map_tab_def)
qed

lemma status_world_upsert_present:
  assumes "last_match 2 (status_rows (sheet_values g)) key = Some j"
  shows "upsert_read_status ''s1'' key b ((status_world g)\<lparr>calls := cs\<rparr>) =
    (Inr (), (status_world (set_cell g (j - 1) 1 (user_entered (flag_str b))))\<lparr>calls := cs @ [GetAllValues example_ws, UpdateCell example_ws j 2 (flag_str b)]\<rparr>)"
proof -
  have "last_match 2 (status_rows (sheet_values (tab_grid (example_tab\<lparr>tab_grid := g\<rparr>)))) key = Some j"
    using assms by simp
  from upsert_present_eq [OF status_world_calls_ready _ this, where flag = b] show ?thesis
    by (simp add: status_world_def example_defs modify_grid_def map_tab_def)
qed

theorem upsert_appends_absent_witness:
  "lookup_ws (modify_grid example_ws (\<lambda>g. g @ [[''http://a'', flag_str True]]) (status_world [status_header])) example_ws
   = Some (example_tab\<lparr>tab_grid := [[''ItemKey'', ''Read''], [''http://a'', ''true'']]\<rparr>)"
proof -
  have "''http://a'' \<notin> hd ` set (status_rows (sheet_values (tab_grid (example_tab\<lparr>tab_grid := [status_header]\<rparr>))))"
    by (simp add: status_rows_def status_header_def sheet_values_simps)
  from upsert_appends_absent [OF status_world_ready _ this, of True]
  show ?thesis by (simp add: status_world_def example_defs flag_str_def status_header_def)
qed

theorem upsert_updates_present_witness:
  "upsert_read_status ''s1'' ''http://a'' False
     (status_world [status_header, [''http://a'', ''true''], [''http://b'', ''false''], [''http://a'', ''TRUE'']])
   = (Inr (), (modify_grid example_ws (\<lambda>g. set_cell g 3 1 (user_entered (flag_str False)))
        ((status_world [status_header, [''http://a'', ''true''], [''http://b'', ''false''], [''http://a'', ''TRUE'']])
           \<lparr>calls := [GetAllValues example_ws, UpdateCell example_ws 4 2 (flag_str False)]\<rparr>))\<lparr>data_cache := Map.empty\<rparr>)"
proof -
  let ?g = "[status_header, [''http://a'', ''true''], [''http://b'', ''false''], [''http://a'', ''TRUE'']]"
  have j: "last_match 2 (status_rows (sheet_values (tab_grid (example_tab\<lparr>tab_grid := ?g\<rparr>)))) ''http://a'' = Some 4"
    by (simp add: last_match_def status_rows_def sheet_values_simps status_header_def upt_rec)
  from upsert_updates_present [OF status_world_ready _ j, of False]
  show ?thesis by (simp add: status_world_def example_defs)
qed

theorem upsert_preserves_status_wf_witness:
  "\<exists>t'. lookup_ws (snd (upsert_read_status ''s1'' ''http://a'' True (status_world [status_header]))) example_ws = Some t'
     \<and> status_wf (tab_grid t')"
proof -
  have "status_wf (tab_grid (example_tab\<lparr>tab_grid := [status_header]\<rparr>))"
    by (simp add: status_wf_def)
  from upsert_preserves_status_wf [OF status_world_ready _ this surjective_pairing]
  show ?thesis by (simp add: status_world_def example_defs)
qed

theorem upsert_cache_invalidation_witness:
  "data_cache (snd (upsert_read_status ''s1'' ''http://a'' True (status_world [status_header]))) =
   (case fst (upsert_read_status ''s1'' ''http://a'' True (status_world [status_header])) of
      Inl _ \<Rightarrow> data_cache (status_world [status_header]) | Inr _ \<Rightarrow> Map.empty)"
  by (rule upsert_cache_invalidation [OF surjective_pairing])

end
