(* ===== verification/Dates.thy ===== *)
theory Dates
  imports Prelude "HOL-Library.Multiset" "HOL-Library.Product_Lexorder"
begin

text \<open>
  The date handling of the page, \<^verbatim>\<open>src/app.py\<close>: \<open>load_articles\<close> converts the
  \<open>Date\<close> column with \<open>pd.to_datetime(df['Date'], errors='coerce')\<close> (lines 28--29),
  the page sorts the filtered articles with \<open>sort_values("Date", ascending=False)\<close>
  (line 240), and each displayed row prints its date with \<open>strftime('%Y-%m-%d')\<close>, or
  \<open>N/A\<close> for \<open>NaT\<close> (line 79).  A timestamp is a calendar day (year, month, day),
  ordered lexicographically, i.e. chronologically.  \<open>to_datetime\<close> models pandas on
  the sheet's ISO dates \<open>YYYY-MM-DD\<close>: a string of that form naming a real day inside
  the range of a nanosecond \<open>Timestamp\<close> (pandas 2) is that day, anything else is \<open>NaT\<close>
  (\<open>None\<close>).  The range is 1677-09-21 00:12:43 to 2262-04-11 23:47:16, so its
  first whole day is 1677-09-22 (\<open>ts_min\<close>) and its last 2262-04-11 (\<open>ts_max\<close>).
  \<open>sort_values_desc\<close> follows pandas' \<open>nargsort\<close> for a descending sort: the dated
  rows are reversed, ordered by numpy's \<open>argsort(kind='quicksort')\<close> of their dates,
  and reversed back, and the \<open>NaT\<close> rows follow in their original order
  (\<open>na_position='last'\<close>).  numpy's quicksort is not stable and its order among equal
  keys is an implementation detail, so the argsort is a parameter: any function that
  returns a permutation of the indices ordering the keys ascending (\<open>argsort_ok\<close>).
  \<open>stable_argsort\<close> is one such function (numpy's \<open>kind='stable'\<close>).
\<close>

section \<open>Definitions\<close>

type_synonym timestamp = "nat \<times> nat \<times> nat"

subsection \<open>Decimal fields\<close>

definition is_digit :: "char \<Rightarrow> bool" where
  "is_digit c \<longleftrightarrow> (48::nat) \<le> of_char c \<and> of_char c \<le> (57::nat)"

definition digit_val :: "char \<Rightarrow> nat" where
  "digit_val c = of_char c - 48"

definition digit_char :: "nat \<Rightarrow> char" where
  "digit_char k = char_of (48 + k)"

text \<open>A non-empty string of decimal digits and its value.\<close>

definition read_nat :: "string \<Rightarrow> nat option" where
  "read_nat s =
     (if s \<noteq> [] \<and> list_all is_digit s then Some (foldl (\<lambda>n c. 10 * n + digit_val c) 0 s) else None)"

text \<open>\<open>n\<close> printed with exactly \<open>w\<close> digits, zero-padded (the \<open>%Y\<close>, \<open>%m\<close>, \<open>%d\<close> fields).\<close>

fun show_num :: "nat \<Rightarrow> nat \<Rightarrow> string" where
  "show_num 0 n = []"
| "show_num (Suc w) n = show_num w (n div 10) @ [digit_char (n mod 10)]"

subsection \<open>Calendar and the range of a Timestamp\<close>

definition leap_year :: "nat \<Rightarrow> bool" where
  "leap_year y \<longleftrightarrow> 4 dvd y \<and> (\<not> 100 dvd y \<or> 400 dvd y)"

definition days_in_month :: "nat \<Rightarrow> nat \<Rightarrow> nat" where
  "days_in_month y m =
     (if m = 2 then (if leap_year y then 29 else 28)
      else if m \<in> {4, 6, 9, 11} then 30 else 31)"

definition valid_date :: "timestamp \<Rightarrow> bool" where
  "valid_date t = (case t of (y, m, d) \<Rightarrow> 1 \<le> m \<and> m \<le> 12 \<and> 1 \<le> d \<and> d \<le> days_in_month y m)"

definition ts_min :: timestamp where
  "ts_min = (1677, 9, 22)"

definition ts_max :: timestamp where
  "ts_max = (2262, 4, 11)"

subsection \<open>Parsing, printing, sorting\<close>

definition to_datetime :: "string \<Rightarrow> timestamp option" where
  "to_datetime s =
     (if length s = 10 \<and> s ! 4 = CHR ''-'' \<and> s ! 7 = CHR ''-'' then
        (case (read_nat (take 4 s), read_nat (take 2 (drop 5 s)), read_nat (drop 8 s)) of
           (Some y, Some m, Some d) \<Rightarrow>
             if valid_date (y, m, d) \<and> ts_min \<le> (y, m, d) \<and> (y, m, d) \<le> ts_max
             then Some (y, m, d) else None
         | _ \<Rightarrow> None)
      else None)"

definition date_str :: "timestamp option \<Rightarrow> string" where
  "date_str t =
     (case t of
        None \<Rightarrow> ''N/A''
      | Some (y, m, d) \<Rightarrow> show_num 4 y @ ''-'' @ show_num 2 m @ ''-'' @ show_num 2 d)"

text \<open>What numpy promises of \<open>argsort\<close>: the indices of the keys, each once, in an
  order that sorts the keys ascending.\<close>

definition argsort_ok :: "('k::linorder list \<Rightarrow> nat list) \<Rightarrow> bool" where
  "argsort_ok srt \<longleftrightarrow>
     (\<forall>ks. mset (srt ks) = mset [0..<length ks] \<and> sorted (map (\<lambda>i. ks ! i) (srt ks)))"

definition stable_argsort :: "'k::linorder list \<Rightarrow> nat list" where
  "stable_argsort ks = sort_key (\<lambda>i. ks ! i) [0..<length ks]"

definition sort_values_desc ::
  "('k::linorder list \<Rightarrow> nat list) \<Rightarrow> ('a \<Rightarrow> 'k option) \<Rightarrow> 'a list \<Rightarrow> 'a list" where
  "sort_values_desc argsort f xs =
     (let nn = rev (filter (\<lambda>x. f x \<noteq> None) xs)
      in rev (map (\<lambda>i. nn ! i) (argsort (map (\<lambda>x. the (f x)) nn)))
         @ filter (\<lambda>x. f x = None) xs)"

text \<open>The order the sort establishes: later dates first, \<open>NaT\<close> last.\<close>

definition date_ge :: "('a \<Rightarrow> 'k::linorder option) \<Rightarrow> 'a \<Rightarrow> 'a \<Rightarrow> bool" where
  "date_ge f a b =
     (case (f a, f b) of
        (_, None) \<Rightarrow> True
      | (None, Some _) \<Rightarrow> False
      | (Some x, Some y) \<Rightarrow> y \<le> x)"

section \<open>Lemmas\<close>

subsection \<open>Digits\<close>

lemma digit_char_digit [simp]:
  "k < 10 \<Longrightarrow> is_digit (digit_char k)" "k < 10 \<Longrightarrow> digit_val (digit_char k) = k"
  by (simp_all add: is_digit_def digit_val_def digit_char_def)

lemma digit_val_less: "is_digit c \<Longrightarrow> digit_val c < 10"
  unfolding is_digit_def digit_val_def by arith

lemma digit_char_val: "is_digit c \<Longrightarrow> digit_char (digit_val c) = c"
  by (simp add: is_digit_def digit_val_def digit_char_def)

lemma length_show_num [simp]: "length (show_num w n) = w"
  by (induction w arbitrary: n) simp_all

lemma show_num_digits: "list_all is_digit (show_num w n)"
  by (induction w arbitrary: n) simp_all

lemma show_num_value: "foldl (\<lambda>n c. 10 * n + digit_val c) 0 (show_num w n) = n mod 10 ^ w"
proof (induction w arbitrary: n)
  case (Suc w)
  have "n mod (10 * 10 ^ w) = 10 * (n div 10 mod 10 ^ w) + n mod 10"
    by (rule mod_mult2_eq)
  then show ?case using Suc by simp
qed simp

lemma value_show_num:
  "list_all is_digit s \<Longrightarrow> show_num (length s) (foldl (\<lambda>n c. 10 * n + digit_val c) 0 s) = s"
proof (induction s rule: rev_induct)
  case (snoc c s)
  then have c: "is_digit c" and ih: "show_num (length s) (foldl (\<lambda>n c. 10 * n + digit_val c) 0 s) = s"
    by simp_all
  with digit_val_less [OF c] show ?case by (simp add: digit_char_val)
qed simp

lemma show_num_nonempty: "0 < w \<Longrightarrow> show_num w n \<noteq> []"
  by (cases w) simp_all

lemma read_show_num: "0 < w \<Longrightarrow> n < 10 ^ w \<Longrightarrow> read_nat (show_num w n) = Some n"
  by (simp add: read_nat_def show_num_digits show_num_value show_num_nonempty)

lemma show_read_nat: "read_nat s = Some n \<Longrightarrow> show_num (length s) n = s"
  by (auto simp: read_nat_def value_show_num split: if_splits)

subsection \<open>Dates\<close>

lemma valid_date_bounds: "valid_date (y, m, d) \<Longrightarrow> m < 100 \<and> d < 100"
  by (auto simp: valid_date_def days_in_month_def split: if_splits)

lemma le_ts_max_year: "(y, m, d) \<le> ts_max \<Longrightarrow> y < 10000"
  by (auto simp: ts_max_def less_eq_prod_def)

lemma date_str_split:
  "date_str (Some (y, m, d)) = show_num 4 y @ ''-'' @ show_num 2 m @ ''-'' @ show_num 2 d"
  by (simp add: date_str_def)

lemma to_datetime_date_str:
  assumes "valid_date t" "ts_min \<le> t" "t \<le> ts_max"
  shows "to_datetime (date_str (Some t)) = Some t"
proof -
  obtain y m d where t: "t = (y, m, d)" by (cases t) auto
  have "y < 10 ^ 4" "m < 10 ^ 2" "d < 10 ^ 2"
    using le_ts_max_year [of y m d] valid_date_bounds [of y m d] assms t by simp_all
  then show ?thesis
    using assms unfolding t date_str_split to_datetime_def
    by (simp add: nth_append read_show_num)
qed

lemma date_str_to_datetime:
  assumes "to_datetime s = Some t"
  shows "s = date_str (Some t) \<and> valid_date t \<and> ts_min \<le> t \<and> t \<le> ts_max"
proof -
  have len: "length s = 10" and dash: "s ! 4 = CHR ''-''" "s ! 7 = CHR ''-''"
    using assms by (simp_all add: to_datetime_def split: if_splits)
  obtain y m d where f: "read_nat (take 4 s) = Some y" "read_nat (take 2 (drop 5 s)) = Some m"
      "read_nat (drop 8 s) = Some d" and t: "t = (y, m, d)"
      and ok: "valid_date (y, m, d)" "ts_min \<le> (y, m, d)" "(y, m, d) \<le> ts_max"
    using assms len dash by (auto simp: to_datetime_def split: option.splits if_splits)
  obtain c0 c1 c2 c3 c4 c5 c6 c7 c8 c9 where s: "s = [c0, c1, c2, c3, c4, c5, c6, c7, c8, c9]"
    using len by (auto simp: length_Suc_conv numeral_eq_Suc)
  have l: "length (take 4 s) = 4" "length (take 2 (drop 5 s)) = 2" "length (drop 8 s) = 2"
    using len by simp_all
  have "show_num 4 y = take 4 s" "show_num 2 m = take 2 (drop 5 s)" "show_num 2 d = drop 8 s"
    using show_read_nat [OF f(1)] show_read_nat [OF f(2)] show_read_nat [OF f(3)] l by metis+
  then have "date_str (Some t) = take 4 s @ ''-'' @ take 2 (drop 5 s) @ ''-'' @ drop 8 s"
    by (simp only: t date_str_split)
  then have "s = date_str (Some t)"
    using dash by (simp add: s)
  then show ?thesis using ok t by simp
qed

subsection \<open>The descending sort\<close>

lemma argsort_okD:
  assumes "argsort_ok srt"
  shows "mset (srt ks) = mset [0..<length ks]" "sorted (map (\<lambda>i. ks ! i) (srt ks))"
    "set (srt ks) = {0..<length ks}"
  using assms unfolding argsort_ok_def by (metis set_mset_mset set_upt)+

lemma argsort_ok_stable: "argsort_ok stable_argsort"
  unfolding argsort_ok_def stable_argsort_def
  using sorted_sort_key [of "\<lambda>i. ks ! i" "[0..<length ks]" for ks] by simp

lemma mset_map_nth_perm:
  "mset p = mset [0..<length xs] \<Longrightarrow> mset (map (\<lambda>i. xs ! i) p) = mset xs"
  by (metis map_nth mset_map)

lemma map_map_nth_perm:
  "set p \<subseteq> {0..<length xs} \<Longrightarrow> map g (map (\<lambda>i. xs ! i) p) = map (\<lambda>i. map g xs ! i) p"
  by auto

lemma date_ge_None [simp]: "f b = None \<Longrightarrow> date_ge f a b"
  by (simp add: date_ge_def split: option.splits)

lemma map_the_dated: "\<forall>x \<in> set ds. f x \<noteq> None \<Longrightarrow> map f ds = map Some (map (\<lambda>x. the (f x)) ds)"
  by (induction ds) auto

text \<open>The dated part of the result: a permutation of the dated rows whose dates are the
  sorted dates in descending order, whatever the argsort's order among equal dates.\<close>

lemma sort_values_desc_dated:
  assumes "argsort_ok srt"
  obtains ds where "sort_values_desc srt f xs = ds @ filter (\<lambda>x. f x = None) xs"
    "mset ds = mset (filter (\<lambda>x. f x \<noteq> None) xs)" "\<forall>x \<in> set ds. f x \<noteq> None"
    "map (\<lambda>x. the (f x)) ds = rev (sort (map (\<lambda>x. the (f x)) (rev (filter (\<lambda>x. f x \<noteq> None) xs))))"
proof -
  let ?g = "\<lambda>x. the (f x)"
  let ?nn = "rev (filter (\<lambda>x. f x \<noteq> None) xs)"
  let ?ks = "map ?g ?nn"
  let ?A = "map (\<lambda>i. ?nn ! i) (srt ?ks)"
  have p: "mset (srt ?ks) = mset [0..<length ?nn]" "set (srt ?ks) \<subseteq> {0..<length ?nn}"
    using argsort_okD(1,3) [OF assms, of ?ks] by simp_all
  have mA: "mset ?A = mset ?nn" by (rule mset_map_nth_perm [OF p(1)])
  have keys: "map ?g ?A = map (\<lambda>i. ?ks ! i) (srt ?ks)"
    by (rule map_map_nth_perm [OF p(2)])
  have "mset (map ?g ?A) = image_mset ?g (mset ?A)" by (rule mset_map)
  also have "\<dots> = image_mset ?g (mset ?nn)" using mA by (rule arg_cong)
  also have "\<dots> = mset ?ks" by (rule mset_map [symmetric])
  finally have "mset (map ?g ?A) = mset ?ks" .
  moreover have "sorted (map ?g ?A)" unfolding keys by (rule argsort_okD(2) [OF assms])
  ultimately have srt: "sort ?ks = map ?g ?A" by (rule properties_for_sort)
  have set: "set ?A = set ?nn" using mA by (rule mset_eq_setD)
  show ?thesis
  proof (rule that [of "rev ?A"])
    show "sort_values_desc srt f xs = rev ?A @ filter (\<lambda>x. f x = None) xs"
      by (simp only: sort_values_desc_def Let_def)
    show "mset (rev ?A) = mset (filter (\<lambda>x. f x \<noteq> None) xs)" using mA by simp
    show "\<forall>x \<in> set (rev ?A). f x \<noteq> None" using set by simp
    show "map ?g (rev ?A) = rev (sort ?ks)" unfolding srt by (rule rev_map [symmetric])
  qed
qed

lemma mset_sort_values_desc:
  assumes "argsort_ok srt"
  shows "mset (sort_values_desc srt f xs) = mset xs"
proof (rule sort_values_desc_dated [OF assms])
  fix ds
  assume "sort_values_desc srt f xs = ds @ filter (\<lambda>x. f x = None) xs"
    "mset ds = mset (filter (\<lambda>x. f x \<noteq> None) xs)"
  then show ?thesis using multiset_partition [of "mset xs" "\<lambda>x. f x \<noteq> None"] by simp
qed

lemma set_sort_values_desc:
  "argsort_ok srt \<Longrightarrow> set (sort_values_desc srt f xs) = set xs"
  by (metis mset_eq_setD mset_sort_values_desc)

lemma sorted_sort_values_desc:
  assumes "argsort_ok srt"
  shows "sorted_wrt (date_ge f) (sort_values_desc srt f xs)"
proof (rule sort_values_desc_dated [OF assms])
  fix ds
  let ?g = "\<lambda>x. the (f x)"
  assume eq: "sort_values_desc srt f xs = ds @ filter (\<lambda>x. f x = None) xs"
    and dated: "\<forall>x \<in> set ds. f x \<noteq> None"
    and keys: "map ?g ds = rev (sort (map ?g (rev (filter (\<lambda>x. f x \<noteq> None) xs))))"
  have "sorted_wrt (\<lambda>a b. b \<le> a) (map ?g ds)"
    unfolding keys sorted_wrt_rev by simp
  then have "sorted_wrt (\<lambda>a b. ?g b \<le> ?g a) ds" by (simp add: sorted_wrt_map)
  then have "sorted_wrt (date_ge f) ds"
    by (rule sorted_wrt_mono_rel [rotated]) (use dated in \<open>fastforce simp: date_ge_def split: option.splits\<close>)
  moreover have "sorted_wrt (date_ge f) (filter (\<lambda>x. f x = None) xs)"
    by (induction xs) auto
  ultimately show "sorted_wrt (date_ge f) (sort_values_desc srt f xs)"
    by (simp add: eq sorted_wrt_append)
qed

lemma sort_values_desc_nat:
  assumes "argsort_ok srt"
  shows "filter (\<lambda>x. f x = None) (sort_values_desc srt f xs) = filter (\<lambda>x. f x = None) xs"
proof (rule sort_values_desc_dated [OF assms])
  fix ds
  assume "sort_values_desc srt f xs = ds @ filter (\<lambda>x. f x = None) xs" "\<forall>x \<in> set ds. f x \<noteq> None"
  then show ?thesis by (simp add: filter_empty_conv)
qed

text \<open>Two lists that are permutations of each other, both sorted by a relation under
  which only elements of equal key are mutually related, and both keeping the order
  of the elements of each key, are equal.\<close>

lemma sorted_stable_unique:
  assumes "mset ys = mset zs" "sorted_wrt R ys" "sorted_wrt R zs"
    "\<forall>k. filter (\<lambda>x. f x = k) ys = filter (\<lambda>x. f x = k) zs"
    "\<And>x y. R x y \<Longrightarrow> R y x \<Longrightarrow> f x = f y"
  shows "ys = zs"
  using assms(1-4)
proof (induction ys arbitrary: zs)
  case Nil
  then show ?case by simp
next
  case (Cons y ys)
  then obtain z zs' where zs: "zs = z # zs'" by (cases zs) auto
  have "f y = f z"
  proof (cases "y = z")
    case False
    have "y \<in> set zs'" "z \<in> set ys"
      using Cons.prems(1) False zs
      by (metis list.set_intros(1) mset_eq_setD set_ConsD)+
    then have "R z y" "R y z" using Cons.prems(2,3) zs by simp_all
    then show ?thesis using assms(5) by metis
  qed simp
  then have yz: "y = z" using spec [OF Cons.prems(4), of "f y"] zs by simp
  have "filter (\<lambda>x. f x = k) ys = filter (\<lambda>x. f x = k) zs'" for k
    using spec [OF Cons.prems(4), of k] zs yz by (simp split: if_splits)
  then have "ys = zs'"
    using Cons.prems(1-3) zs yz by (intro Cons.IH) simp_all
  then show ?case using zs yz by simp
qed

lemma date_ge_antisym: "date_ge f a b \<Longrightarrow> date_ge f b a \<Longrightarrow> f a = f b"
  by (auto simp: date_ge_def split: option.splits)

section \<open>Properties of the date handling\<close>

text \<open>
  Dates round-trip between the sheet and the page on the sheet's ISO dates.
\<close>

lemma to_datetime_roundtrip:
  "to_datetime s = Some t \<longleftrightarrow> valid_date t \<and> ts_min \<le> t \<and> t \<le> ts_max \<and> s = date_str (Some t)"
  using date_str_to_datetime [of s t] to_datetime_date_str [of t] by blast

text \<open>
  C26. For every argsort that does what numpy promises, \<open>sort_values("Date",
  ascending=False)\<close> returns a permutation of its input with later dates before earlier
  ones and every \<open>NaT\<close> after every date, the \<open>NaT\<close> rows in their input order; and
  the sequence of dates it produces does not depend on the argsort: two argsorts may
  order rows of equal date differently, but nothing else.
\<close>

theorem sort_values_desc_spec:
  assumes "argsort_ok srt" "argsort_ok srt'"
  shows "mset (sort_values_desc srt f xs) = mset xs \<and> sorted_wrt (date_ge f) (sort_values_desc srt f xs)
     \<and> filter (\<lambda>x. f x = None) (sort_values_desc srt f xs) = filter (\<lambda>x. f x = None) xs
     \<and> map f (sort_values_desc srt f xs) = map f (sort_values_desc srt' f xs)"
proof -
  have keys: "map f (sort_values_desc s f xs) =
      map Some (rev (sort (map (\<lambda>x. the (f x)) (rev (filter (\<lambda>x. f x \<noteq> None) xs)))))
      @ map f (filter (\<lambda>x. f x = None) xs)" if "argsort_ok s" for s
  proof (rule sort_values_desc_dated [OF that])
    fix ds
    assume "sort_values_desc s f xs = ds @ filter (\<lambda>x. f x = None) xs" "\<forall>x \<in> set ds. f x \<noteq> None"
      "map (\<lambda>x. the (f x)) ds = rev (sort (map (\<lambda>x. the (f x)) (rev (filter (\<lambda>x. f x \<noteq> None) xs))))"
    note a = this
    have "map f (sort_values_desc s f xs) = map f ds @ map f (filter (\<lambda>x. f x = None) xs)"
      by (simp only: a(1) map_append)
    also have "map f ds = map Some (map (\<lambda>x. the (f x)) ds)" by (rule map_the_dated [OF a(2)])
    finally show ?thesis by (simp only: a(3))
  qed
  show ?thesis
  proof (intro conjI)
    show "mset (sort_values_desc srt f xs) = mset xs" by (rule mset_sort_values_desc [OF assms(1)])
    show "sorted_wrt (date_ge f) (sort_values_desc srt f xs)" by (rule sorted_sort_values_desc [OF assms(1)])
    show "filter (\<lambda>x. f x = None) (sort_values_desc srt f xs) = filter (\<lambda>x. f x = None) xs"
      by (rule sort_values_desc_nat [OF assms(1)])
    show "map f (sort_values_desc srt f xs) = map f (sort_values_desc srt' f xs)"
      by (simp only: keys [OF assms(1)] keys [OF assms(2)])
  qed
qed

section \<open>Witnesses\<close>

theorem sort_values_desc_spec_witness:
  "sort_values_desc stable_argsort (\<lambda>x. x) [None, Some (1::nat), Some 3, Some 1]
     = [Some 3, Some 1, Some 1, None]"
proof -
  have "map (\<lambda>x. x) (sort_values_desc stable_argsort (\<lambda>x. x) [None, Some (1::nat), Some 3, Some 1])
      = map (\<lambda>x. x) (sort_values_desc stable_argsort (\<lambda>x. x) [None, Some (1::nat), Some 3, Some 1])"
    using sort_values_desc_spec [OF argsort_ok_stable argsort_ok_stable] by blast
  then show ?thesis
    by (simp add: sort_values_desc_def stable_argsort_def)
qed

end
