(* ===== verification/App.thy ===== *)
theory App
  imports Upsert Dates
begin

text \<open>
  The presentation layer's use of the data layer, \<^verbatim>\<open>src/app.py\<close>: the constants of
  the page (lines 9--16), \<open>load_articles\<close> (lines 21--43), which reads the
  \<open>Articles\<close> and \<open>ReadStatus\<close> sheets through the Read Cache and gives every article
  its read flag (the last status row of its URL, parsed case-insensitively, else false),
  and \<open>on_toggle\<close> (lines 45--49), which waits 300 ms and upserts the checkbox's new
  state.  An article is the data row of the frame with the \<open>ItemKey\<close> and \<open>Read\<close>
  columns the code adds, and with the \<open>Date\<close> column converted by
  \<open>pd.to_datetime\<close> (\<open>art_date\<close>, computed by \<open>row_date\<close> with theory \<open>Dates\<close>); the
  row itself keeps the strings of the sheet.
\<close>

section \<open>Definitions\<close>

definition SHEET_ID :: string where
  "SHEET_ID = ''1ams3xdaxMB_iAEpbAK0CT3yZwv9ME-5jZINiiXN0p7Q''"

definition DATA_SHEET_NAME :: string where
  "DATA_SHEET_NAME = ''Articles''"

definition READ_SHEET_NAME :: string where
  "READ_SHEET_NAME = ''ReadStatus''"

definition REQUIRED_COLS :: "string list" where
  "REQUIRED_COLS = [''Date'', ''Author'', ''Title'', ''Subtitle'', ''URL'', ''Category (20-class)'']"

definition DEBOUNCE_MS :: nat where
  "DEBOUNCE_MS = 300"

record article =
  art_row :: "string list"
  art_key :: string
  art_read :: bool
  art_date :: "timestamp option"

text \<open>\<open>df[name]\<close> on a frame: the first column of that label, or \<open>KeyError\<close>.\<close>

fun col_index :: "string list \<Rightarrow> string \<Rightarrow> nat option" where
  "col_index [] name = None"
| "col_index (c # cs) name = (if c = name then Some 0 else map_option Suc (col_index cs name))"

text \<open>\<open>.astype(str).str.lower().isin(["true", "1", "yes"])\<close>\<close>

definition parse_read :: "string \<Rightarrow> bool" where
  "parse_read s \<longleftrightarrow> lower s \<in> set [''true'', ''1'', ''yes'']"

text \<open>
  The status half of \<open>load_articles\<close> (lines 32--41): an empty status frame gives
  every article false; otherwise \<open>rs[["ItemKey", "Read"]]\<close> needs both columns, and
  \<open>drop_duplicates(keep="last")\<close> with the left merge gives each key the flag of its
  last row.
\<close>

definition status_map :: "frame \<Rightarrow> exc + (string \<rightharpoonup> bool)" where
  "status_map rs =
     (if frame_empty rs then Inr Map.empty
      else case (col_index (frame_cols rs) ''ItemKey'', col_index (frame_cols rs) ''Read'') of
        (Some ki, Some ri) \<Rightarrow>
          Inr (map_of (rev (map (\<lambda>r. (r ! ki, parse_read (r ! ri))) (frame_rows rs))))
      | (None, _) \<Rightarrow> Inl (KeyError ''ItemKey'')
      | (Some _, None) \<Rightarrow> Inl (KeyError ''Read''))"

definition read_flag :: "(string \<rightharpoonup> bool) \<Rightarrow> string \<Rightarrow> bool" where
  "read_flag sm k = (case sm k of Some b \<Rightarrow> b | None \<Rightarrow> False)"

text \<open>Lines 28--29: when the frame has a \<open>Date\<close> column, its value is replaced by
  \<open>pd.to_datetime(..., errors='coerce')\<close>; without one there is no date.\<close>

definition row_date :: "string list \<Rightarrow> string list \<Rightarrow> timestamp option" where
  "row_date cols r = (case col_index cols ''Date'' of None \<Rightarrow> None | Some di \<Rightarrow> to_datetime (r ! di))"

definition load_articles :: "((string list \<times> article list) option, world) st" where
  "load_articles =
     rbind (read_sheet_to_df SHEET_ID DATA_SHEET_NAME) (\<lambda>df.
       if frame_empty df then
         rbind (get_or_create_worksheet SHEET_ID DATA_SHEET_NAME (Some REQUIRED_COLS)) (\<lambda>_. rreturn None)
       else case col_index (frame_cols df) ''URL'' of
         None \<Rightarrow> rraise (KeyError ''URL'')
       | Some ui \<Rightarrow>
           rbind (read_sheet_to_df SHEET_ID READ_SHEET_NAME) (\<lambda>rs.
             case status_map rs of
               Inl e \<Rightarrow> rraise e
             | Inr sm \<Rightarrow>
                 if \<not> frame_empty rs \<and> ''Read'' \<in> set (frame_cols df) then rraise (KeyError ''Read'')
                 else rreturn (Some (frame_cols df, map (\<lambda>r. \<lparr>art_row = r, art_key = r ! ui,
                                                 art_read = read_flag sm (r ! ui),
                                                 art_date = row_date (frame_cols df) r\<rparr>) (frame_rows df)))))"

text \<open>\<open>on_toggle\<close>: the 300 ms debounce, then the checkbox's state (false when the
  session has none) is upserted.\<close>

definition on_toggle :: "(string \<rightharpoonup> bool) \<Rightarrow> string \<Rightarrow> string \<Rightarrow> (unit, world) st" where
  "on_toggle session chk_key item_key =
     rbind (\<lambda>w. (Inr (), sleep DEBOUNCE_MS w)) (\<lambda>_.
       upsert_read_status SHEET_ID item_key (case session chk_key of Some b \<Rightarrow> b | None \<Rightarrow> False))"

text \<open>The abstract status store: the map from item keys to read flags that a
  well-formed status sheet stands for, as \<open>load_articles\<close> reads it.\<close>

definition status_view :: "string list list \<Rightarrow> string \<rightharpoonup> bool" where
  "status_view g = map_of (rev (map (\<lambda>r. (hd r, parse_read (r ! 1))) (tl g)))"

section \<open>Reading flags back\<close>

lemma read_flag_upd: "read_flag (m(k \<mapsto> b)) x = (if x = k then b else read_flag m x)"
  by (simp add: read_flag_def)

lemma parse_read_flag_str [simp]: "parse_read (flag_str b) = b"
  by (cases b) (simp_all add: parse_read_def flag_str_def lower_def lower_char_def)

lemma parse_read_user_entered [simp]: "parse_read (user_entered (flag_str b)) = b"
  by (cases b) (simp_all add: parse_read_def flag_str_def user_entered_def lower_def lower_char_def)


lemma col_index_status_header [simp]:
  "col_index status_header ''ItemKey'' = Some 0" "col_index status_header ''Read'' = Some 1"
  by (simp_all add: status_header_def)

lemma status_map_wf:
  assumes "status_wf g"
  shows "status_map (frame_of_values (sheet_values g)) = Inr (status_view g)"
proof -
  obtain rs where g: "g = status_header # rs" using assms by (cases g) (auto simp: status_wf_def)
  have rows: "\<forall>r \<in> set rs. r \<noteq> []" using assms g by (auto simp: status_wf_def)
  then have eq: "map (\<lambda>r. (r ! 0, parse_read (r ! Suc 0))) rs = map (\<lambda>r. (hd r, parse_read (r ! Suc 0))) rs"
    by (auto simp: hd_conv_nth)
  show ?thesis
    using sheet_values_status_wf [OF assms] g
    by (cases "rs = []")
      (simp_all add: frame_of_values_def status_map_def status_view_def frame_empty_def Let_def
         status_header_def eq)
qed

lemma status_view_append:
  "g \<noteq> [] \<Longrightarrow> status_view (g @ [[k, v]]) = (status_view g)(k \<mapsto> parse_read v)"
  by (cases g) (simp_all add: status_view_def)

lemma status_view_set_cell:
  assumes "status_wf g" "last_match 2 (status_rows (sheet_values g)) k = Some j"
  shows "status_view (set_cell g (j - 1) 1 v) = (status_view g)(k \<mapsto> parse_read v)"
proof -
  obtain rs where g: "g = status_header # rs" using assms(1) by (cases g) (auto simp: status_wf_def)
  have sv: "sheet_values g = g" by (rule sheet_values_status_wf [OF assms(1)])
  from assms(2) have rs: "status_rows g = rs"
    by (cases rs) (simp_all add: sv g status_rows_def)
  from last_match_Some [OF assms(2)] sv rs
  have j: "2 \<le> j" "j - 2 < length rs" "hd (rs ! (j - 2)) = k"
    "\<forall>p. j - 2 < p \<and> p < length rs \<longrightarrow> hd (rs ! p) \<noteq> k" by auto
  have row: "rs ! (j - 2) \<in> set rs" using j(2) by simp
  then have len: "length (rs ! (j - 2)) = 2" using assms(1) g by (simp add: status_wf_def)
  have j1: "j - 1 = Suc (j - 2)" using j(1) by simp
  have cell: "set_cell g (j - 1) 1 v = status_header # rs[j - 2 := (rs ! (j - 2))[1 := v]]"
    unfolding j1 using j(2) len by (simp add: g set_cell_in_range)
  have "hd ((rs ! (j - 2))[1 := v]) = k"
    using j(3) len by (cases "rs ! (j - 2)") simp_all
  moreover have "(rs ! (j - 2))[1 := v] ! 1 = v" using len by simp
  ultimately show ?thesis
    unfolding cell status_view_def
    using map_of_rev_map_update [of "j - 2" rs "\<lambda>r. (hd r, parse_read (r ! 1))" k "(rs ! (j - 2))[1 := v]"] j
    by (simp add: g)
qed


lemma status_wf_nonempty: "status_wf g \<Longrightarrow> g \<noteq> []"
  by (simp add: status_wf_def)

text \<open>What one successful upsert does to the status sheet, seen through the abstract
  store: it stays well formed, its view is updated at the key, the fault schedule is
  untouched and the data cache is empty.\<close>

lemma upsert_effect:
  assumes "status_ready w sid h t" "faults w = []" "status_wf (tab_grid t)"
    "upsert_read_status sid key flag w = (r, w')"
  shows "r = Inr () \<and> faults w' = [] \<and> data_cache w' = Map.empty \<and> wsmap_cache w' = wsmap_cache w \<and>
    (\<forall>h'. ws_title h' \<noteq> ws_title h \<longrightarrow> lookup_ws w' h' = lookup_ws w h') \<and>
    (\<exists>t'. status_ready w' sid h t' \<and> status_wf (tab_grid t')
        \<and> status_view (tab_grid t') = (status_view (tab_grid t))(key \<mapsto> flag))"
proof -
  have lk: "lookup_ws w h = Some t" using assms(1) by (simp add: status_ready_def)
  show ?thesis
  proof (cases "last_match 2 (status_rows (sheet_values (tab_grid t))) key")
    case None
    then have "key \<notin> hd ` set (status_rows (sheet_values (tab_grid t)))"
      by (simp add: last_match_None)
    from upsert_absent_eq [OF assms(1,2) this, of flag] assms(1-4) lk show ?thesis
      by (auto simp: lookup_ws_modify_grid lookup_ws_modify_grid_other status_ready_def
          status_view_append status_wf_nonempty intro: status_wf_append)
  next
    case (Some j)
    note eq = upsert_present_eq [OF assms(1,2) Some, of flag]
    have "status_wf (set_cell (tab_grid t) (j - 1) 1 (user_entered (flag_str flag)))"
      using eq assms(3) by (intro status_wf_set_cell) auto
    with eq assms(1,2,4) lk status_view_set_cell [OF assms(3) Some] show ?thesis
      by (auto simp: lookup_ws_modify_grid lookup_ws_modify_grid_other status_ready_def)
  qed
qed


section \<open>The read-status round trip\<close>

text \<open>
  C1. Refinement: on a well-formed status sheet, \<open>upsert_read_status\<close> implements the
  abstract operation "set the flag of \<open>item_key\<close>" on the store \<open>status_view\<close>: it
  succeeds, and the sheet afterwards stands for the old map updated at the key.
\<close>

theorem upsert_refines_status_view:
  assumes "status_ready w sid h t" "faults w = []" "status_wf (tab_grid t)"
    "upsert_read_status sid key flag w = (r, w')"
  shows "r = Inr () \<and>
    (\<exists>t'. lookup_ws w' h = Some t' \<and> status_view (tab_grid t') = (status_view (tab_grid t))(key \<mapsto> flag))"
  using upsert_effect [OF assms] by (auto simp: status_ready_def)

text \<open>
  C2. Read your own write: after an upsert, the next \<open>read_sheet_to_df\<close> of the status
  sheet goes to the remote sheet (the cache was cleared), and the frame it returns, read
  by \<open>load_articles\<close>' status lookup, maps the key to the flag just written and every
  other key to what it mapped to before.
\<close>

theorem upsert_read_your_write:
  assumes "status_ready w sid h t" "faults w = []" "status_wf (tab_grid t)"
    "upsert_read_status sid key flag w = (r, w')"
    "read_sheet_to_df sid status_sheet w' = (r2, w'')"
  shows "\<exists>fr. r2 = Inr fr \<and> status_map fr = Inr ((status_view (tab_grid t))(key \<mapsto> flag))"
proof -
  obtain t' where ok: "faults w' = []" "data_cache w' = Map.empty" "status_ready w' sid h t'"
      "status_wf (tab_grid t')" "status_view (tab_grid t') = (status_view (tab_grid t))(key \<mapsto> flag)"
    using upsert_effect [OF assms(1-4)] by blast
  obtain m where m: "wsmap_cache w' sid = Some m" "m status_sheet = Some h" "lookup_ws w' h = Some t'"
    using ok(3) by (auto simp: status_ready_def split: option.splits)
  have "\<not> cache_fresh w' (sid, status_sheet)" using ok(2) by (simp add: cache_fresh_def)
  from read_miss_eq [OF this m ok(1)] assms(5)
  have "r2 = Inr (frame_of_values (sheet_values (tab_grid t')))" by simp
  with status_map_wf [OF ok(4)] ok(5) show ?thesis by simp
qed

section \<open>Witnesses\<close>

theorem upsert_refines_status_view_witness:
  "fst (upsert_read_status ''s1'' ''http://b'' True (status_world [status_header, [''http://a'', ''false'']])) = Inr ()
   \<and> (\<exists>t'. lookup_ws (snd (upsert_read_status ''s1'' ''http://b'' True
                (status_world [status_header, [''http://a'', ''false'']]))) example_ws = Some t'
        \<and> status_view (tab_grid t') = [''http://a'' \<mapsto> False, ''http://b'' \<mapsto> True])"
proof -
  have "status_wf (tab_grid (example_tab\<lparr>tab_grid := [status_header, [''http://a'', ''false'']]\<rparr>))"
    by (simp add: status_wf_def status_header_def)
  from upsert_refines_status_view [OF status_world_ready _ this surjective_pairing]
  show ?thesis
    by (simp add: status_world_def example_defs status_view_def parse_read_def lower_def lower_char_def)
qed

theorem upsert_read_your_write_witness:
  "\<exists>fr. fst (read_sheet_to_df ''s1'' status_sheet
            (snd (upsert_read_status ''s1'' ''http://a'' True (status_world [status_header]))))
        = Inr fr \<and> status_map fr = Inr [''http://a'' \<mapsto> True]"
proof -
  have "status_wf (tab_grid (example_tab\<lparr>tab_grid := [status_header]\<rparr>))"
    by (simp add: status_wf_def)
  from upsert_read_your_write [OF status_world_ready _ this surjective_pairing surjective_pairing]
  show ?thesis by (simp add: status_world_def example_defs status_view_def)
qed

end
