(* ===== verification/StableKey.thy ===== *)
theory StableKey
  imports Prelude "HOL-Library.Word"
begin

text \<open>
  The widget key of a row's checkbox, \<^verbatim>\<open>src/app.py\<close> lines 18--19:
  \<open>stable_key(prefix, s) = f"{prefix}_{hashlib.md5(s.encode('utf-8')).hexdigest()}"\<close>.
  \<open>utf8_encode\<close> is \<open>str.encode('utf-8')\<close> on the characters a HOL string holds (code
  points below 256: one byte below 128, two bytes above).  \<open>md5\<close> is MD5 as RFC 1321
  defines it, over 32-bit words (\<open>32 word\<close>, whose \<open>+\<close> wraps around as MD5's addition
  modulo \<open>2^32\<close> does): the message is padded with \<open>0x80\<close>, zeros and its bit length as
  a 64-bit little-endian number to a multiple of 64 bytes, each 64-byte block is read
  as sixteen little-endian words and mixed into the four chaining words by 64 steps,
  and the digest is the chaining words in little-endian order.  \<open>hexdigest\<close> prints
  each byte as two lowercase hexadecimal digits.
\<close>

unbundle bit_operations_syntax

section \<open>Definitions\<close>

type_synonym byte = "8 word"
type_synonym word32 = "32 word"

subsection \<open>Bytes\<close>

definition utf8_encode :: "string \<Rightarrow> byte list" where
  "utf8_encode s =
     concat (map (\<lambda>c. let n = of_char c :: nat in
                       if n < 128 then [of_nat n] else [of_nat (192 + n div 64), of_nat (128 + n mod 64)]) s)"

text \<open>The \<open>k\<close> low bytes of \<open>n\<close>, least significant first.\<close>

fun le_bytes :: "nat \<Rightarrow> nat \<Rightarrow> byte list" where
  "le_bytes 0 n = []"
| "le_bytes (Suc k) n = of_nat (n mod 256) # le_bytes k (n div 256)"

text \<open>The \<open>k\<close> low bytes of a word, least significant first.\<close>

fun word_bytes :: "nat \<Rightarrow> word32 \<Rightarrow> byte list" where
  "word_bytes 0 w = []"
| "word_bytes (Suc k) w = ucast w # word_bytes k (drop_bit 8 w)"

definition le_word :: "byte list \<Rightarrow> word32" where
  "le_word bs = foldr (\<lambda>b w. ucast b OR push_bit 8 w) bs 0"

text \<open>A list cut into pieces of \<open>n\<close> elements (the last one may be shorter).\<close>

function chunks :: "nat \<Rightarrow> 'a list \<Rightarrow> 'a list list" where
  "chunks n xs = (if n = 0 \<or> xs = [] then [] else take n xs # chunks n (drop n xs))"
  by pat_completeness auto
termination
  by (relation "measure (\<lambda>(n, xs). length xs)") auto

declare chunks.simps [simp del]

subsection \<open>MD5\<close>

definition md5_pad :: "byte list \<Rightarrow> byte list" where
  "md5_pad bs =
     bs @ [0x80] @ replicate ((119 - length bs mod 64) mod 64) 0 @ le_bytes 8 (8 * length bs)"

definition md5_shift :: "nat list" where
  "md5_shift =
     [7, 12, 17, 22, 7, 12, 17, 22, 7, 12, 17, 22, 7, 12, 17, 22,
      5, 9, 14, 20, 5, 9, 14, 20, 5, 9, 14, 20, 5, 9, 14, 20,
      4, 11, 16, 23, 4, 11, 16, 23, 4, 11, 16, 23, 4, 11, 16, 23,
      6, 10, 15, 21, 6, 10, 15, 21, 6, 10, 15, 21, 6, 10, 15, 21]"

definition md5_K :: "word32 list" where
  "md5_K =
     [0xd76aa478, 0xe8c7b756, 0x242070db, 0xc1bdceee, 0xf57c0faf, 0x4787c62a, 0xa8304613, 0xfd469501,
      0x698098d8, 0x8b44f7af, 0xffff5bb1, 0x895cd7be, 0x6b901122, 0xfd987193, 0xa679438e, 0x49b40821,
      0xf61e2562, 0xc040b340, 0x265e5a51, 0xe9b6c7aa, 0xd62f105d, 0x02441453, 0xd8a1e681, 0xe7d3fbc8,
      0x21e1cde6, 0xc33707d6, 0xf4d50d87, 0x455a14ed, 0xa9e3e905, 0xfcefa3f8, 0x676f02d9, 0x8d2a4c8a,
      0xfffa3942, 0x8771f681, 0x6d9d6122, 0xfde5380c, 0xa4beea44, 0x4bdecfa9, 0xf6bb4b60, 0xbebfbc70,
      0x289b7ec6, 0xeaa127fa, 0xd4ef3085, 0x04881d05, 0xd9d4d039, 0xe6db99e5, 0x1fa27cf8, 0xc4ac5665,
      0xf4292244, 0x432aff97, 0xab9423a7, 0xfc93a039, 0x655b59c3, 0x8f0ccc92, 0xffeff47d, 0x85845dd1,
      0x6fa87e4f, 0xfe2ce6e0, 0xa3014314, 0x4e0811a1, 0xf7537e82, 0xbd3af235, 0x2ad7d2bb, 0xeb86d391]"

text \<open>The round function and the message word of step \<open>i\<close>.\<close>

definition md5_F :: "nat \<Rightarrow> word32 \<Rightarrow> word32 \<Rightarrow> word32 \<Rightarrow> word32" where
  "md5_F i b c d =
     (if i < 16 then (b AND c) OR (NOT b AND d)
      else if i < 32 then (d AND b) OR (NOT d AND c)
      else if i < 48 then b XOR c XOR d
      else c XOR (b OR NOT d))"

definition md5_g :: "nat \<Rightarrow> nat" where
  "md5_g i =
     (if i < 16 then i
      else if i < 32 then (5 * i + 1) mod 16
      else if i < 48 then (3 * i + 5) mod 16
      else (7 * i) mod 16)"

type_synonym md5_state = "word32 \<times> word32 \<times> word32 \<times> word32"

definition md5_init :: md5_state where
  "md5_init = (0x67452301, 0xefcdab89, 0x98badcfe, 0x10325476)"

definition md5_step :: "word32 list \<Rightarrow> md5_state \<Rightarrow> nat \<Rightarrow> md5_state" where
  "md5_step M h i =
     (case h of (a, b, c, d) \<Rightarrow>
        (d, b + word_rotl (md5_shift ! i) (md5_F i b c d + a + md5_K ! i + M ! md5_g i), b, c))"

definition md5_block :: "md5_state \<Rightarrow> byte list \<Rightarrow> md5_state" where
  "md5_block h blk =
     (let M = map le_word (chunks 4 blk) in
      case (h, foldl (md5_step M) h [0..<64]) of
        ((a0, b0, c0, d0), (a, b, c, d)) \<Rightarrow> (a0 + a, b0 + b, c0 + c, d0 + d))"

definition md5 :: "byte list \<Rightarrow> byte list" where
  "md5 bs =
     (case foldl md5_block md5_init (chunks 64 (md5_pad bs)) of
        (a, b, c, d) \<Rightarrow> concat (map (word_bytes 4) [a, b, c, d]))"

subsection \<open>Hexadecimal digest and the key\<close>

definition hex_chars :: string where
  "hex_chars = ''0123456789abcdef''"

definition hexdigest :: "byte list \<Rightarrow> string" where
  "hexdigest bs = concat (map (\<lambda>b. [hex_chars ! (unat b div 16), hex_chars ! (unat b mod 16)]) bs)"

text \<open>Decoding of the bytes \<open>utf8_encode\<close> produces, used to show that the encoding
  loses nothing.\<close>

fun utf8_decode :: "byte list \<Rightarrow> string" where
  "utf8_decode [] = []"
| "utf8_decode (b # bs) =
     (if unat b < 128 then char_of (unat b) # utf8_decode bs
      else case bs of
             [] \<Rightarrow> []
           | b2 # bs' \<Rightarrow> char_of ((unat b - 192) * 64 + (unat b2 - 128)) # utf8_decode bs')"

definition stable_key :: "string \<Rightarrow> string \<Rightarrow> string" where
  "stable_key pfx s = pfx @ ''_'' @ hexdigest (md5 (utf8_encode s))"

section \<open>Lemmas\<close>

lemma length_le_bytes [simp]: "length (le_bytes k n) = k"
  by (induction k arbitrary: n) simp_all

lemma length_word_bytes [simp]: "length (word_bytes k w) = k"
  by (induction k arbitrary: w) simp_all

lemma length_md5 [simp]: "length (md5 bs) = 16"
  by (simp add: md5_def split: prod.splits)

lemma md5_pad_length:
  "length (md5_pad bs) = length bs + 9 + (119 - length bs mod 64) mod 64"
  by (simp add: md5_pad_def)

lemma pad_count: "(n + 9 + (119 - n mod 64) mod 64) mod 64 = (0::nat)" "(119 - n mod 64) mod 64 < (64::nat)"
proof -
  have r: "n mod 64 < 64" and n: "64 * (n div 64) + n mod 64 = n" by simp_all
  show "(n + 9 + (119 - n mod 64) mod 64) mod 64 = 0"
  proof (cases "n mod 64 \<le> 55")
    case True
    then have "(119 - n mod 64) mod 64 = 55 - n mod 64" by (simp add: le_mod_geq)
    moreover have "n + 9 + (55 - n mod 64) = 64 * (n div 64 + 1)" using True n by arith
    ultimately have "n + 9 + (119 - n mod 64) mod 64 = 64 * (n div 64 + 1)" by simp
    then show ?thesis by (metis mod_mult_self1_is_0)
  next
    case False
    then have "(119 - n mod 64) mod 64 = 119 - n mod 64" using r by simp
    moreover have "n + 9 + (119 - n mod 64) = 64 * (n div 64 + 2)" using False r n by arith
    ultimately have "n + 9 + (119 - n mod 64) mod 64 = 64 * (n div 64 + 2)" by simp
    then show ?thesis by (metis mod_mult_self1_is_0)
  qed
  show "(119 - n mod 64) mod 64 < (64::nat)" by simp
qed

lemma unat_byte_less: "unat (b :: byte) < 256"
  using unsigned_less [of b] by simp

lemma hex_chars_distinct: "distinct hex_chars" "length hex_chars = 16"
  by (simp_all add: hex_chars_def)

lemma length_hexdigest [simp]: "length (hexdigest bs) = 2 * length bs"
  by (induction bs) (simp_all add: hexdigest_def)

lemma set_hexdigest: "set (hexdigest bs) \<subseteq> set hex_chars"
  using unat_byte_less hex_chars_distinct(2)
  by (auto simp: hexdigest_def less_mult_imp_div_less)

lemma hexdigest_inj: "hexdigest bs = hexdigest cs \<Longrightarrow> bs = cs"
proof (induction bs arbitrary: cs)
  case Nil
  then show ?case by (cases cs) (simp_all add: hexdigest_def)
next
  case (Cons b bs)
  then obtain c cs' where cs: "cs = c # cs'" by (cases cs) (simp_all add: hexdigest_def)
  have lt: "unat x div 16 < 16" "unat x mod 16 < 16" for x :: byte
    using unat_byte_less [of x] by (simp_all add: less_mult_imp_div_less)
  from Cons.prems have "hex_chars ! (unat b div 16) = hex_chars ! (unat c div 16)"
    "hex_chars ! (unat b mod 16) = hex_chars ! (unat c mod 16)" "hexdigest bs = hexdigest cs'"
    by (simp_all add: cs hexdigest_def)
  then have "unat b div 16 = unat c div 16" "unat b mod 16 = unat c mod 16" "bs = cs'"
    using lt hex_chars_distinct Cons.IH by (metis nth_eq_iff_index_eq)+
  then have "unat b = unat c" by (metis div_mult_mod_eq)
  then show ?case using \<open>bs = cs'\<close> cs by (simp add: word_unat_eq_iff)
qed

lemma utf8_decode_encode: "utf8_decode (utf8_encode s) = s"
proof (induction s)
  case (Cons c s)
  let ?n = "of_char c :: nat"
  have n: "?n < 256" using nat_of_char_less_256 [of c] by simp
  show ?case
  proof (cases "?n < 128")
    case True
    then show ?thesis using Cons by (simp add: utf8_encode_def unat_of_nat)
  next
    case False
    have d: "?n div 64 < 4" using n less_mult_imp_div_less [of ?n 4 64] by simp
    have "unat (of_nat (192 + ?n div 64) :: byte) = 192 + ?n div 64"
      "unat (of_nat (128 + ?n mod 64) :: byte) = 128 + ?n mod 64"
      using d by (subst unat_of_nat, simp)+
    moreover have "(192 + ?n div 64 - 192) * 64 + (128 + ?n mod 64 - 128) = ?n" by simp
    ultimately show ?thesis using Cons False by (simp add: utf8_encode_def Let_def)
  qed
qed (simp add: utf8_encode_def)

section \<open>Properties of the widget key\<close>

text \<open>
  The MD5 of the model is RFC 1321's: it gives the test-suite digests of the empty
  message and of \<open>abc\<close>, and \<open>stable_key\<close> computes the key Python's \<open>hashlib\<close>
  gives the checkbox of the article \<open>http://a\<close>.
\<close>

lemma md5_test_vectors:
  "hexdigest (md5 []) = ''d41d8cd98f00b204e9800998ecf8427e''
   \<and> hexdigest (md5 (utf8_encode ''abc'')) = ''900150983cd24fb0d6963f7d28e17f72''
   \<and> stable_key ''readchk'' ''http://a'' = ''readchk_82795f11d2315ac2703b14c5f8020886''"
  by code_simp

text \<open>
  MD5's padding: the padded message starts with the message, ends with its bit
  length as eight little-endian bytes, is a whole number of 64-byte blocks, and adds
  between 9 and 72 bytes.
\<close>

lemma md5_pad_bounds:
  "length (md5_pad bs) mod 64 = 0
   \<and> length bs + 9 \<le> length (md5_pad bs) \<and> length (md5_pad bs) \<le> length bs + 72
   \<and> take (length bs) (md5_pad bs) = bs
   \<and> drop (length (md5_pad bs) - 8) (md5_pad bs) = le_bytes 8 (8 * length bs)"
  using pad_count [of "length bs"] by (simp add: md5_pad_length) (simp add: md5_pad_def)

text \<open>
  C35. The checkbox key of an item is the prefix, an underscore and 32 lowercase
  hexadecimal digits; two items get the same key under one prefix exactly when the MD5
  digests of their UTF-8 encodings agree, and the encoding of different items differs:
  distinct items share a key only through an MD5 collision.
\<close>

theorem stable_key_spec:
  "(\<exists>h. stable_key p s = p @ ''_'' @ h \<and> length h = 32 \<and> set h \<subseteq> set hex_chars)
   \<and> (stable_key p s = stable_key p t \<longleftrightarrow> md5 (utf8_encode s) = md5 (utf8_encode t))
   \<and> (utf8_encode s = utf8_encode t \<longleftrightarrow> s = t)"
proof (intro conjI)
  show "\<exists>h. stable_key p s = p @ ''_'' @ h \<and> length h = 32 \<and> set h \<subseteq> set hex_chars"
    by (auto simp: stable_key_def set_hexdigest)
  show "stable_key p s = stable_key p t \<longleftrightarrow> md5 (utf8_encode s) = md5 (utf8_encode t)"
    by (auto simp: stable_key_def dest: hexdigest_inj)
  show "utf8_encode s = utf8_encode t \<longleftrightarrow> s = t"
    by (metis utf8_decode_encode)
qed

end
