(* ===== verification/Page.thy ===== *)
theory Page
  imports App StableKey "HOL-Library.List_Lexorder" "HOL-Library.Char_ord"
begin

text \<open>
  The page script of \<^verbatim>\<open>src/app.py\<close> after the articles are loaded (lines 52--115 and
  151--255): the read/unread counts of the sidebar, the status radio whose option labels
  carry those counts, the two category groups with their select-all checkboxes, the
  reset of the page number when a filter input changes, the filters, the sort by date
  (theory \<open>Dates\<close>), the search, whose pattern Python's regular-expression engine
  compiles (the record \<open>pylib\<close> holds that engine and numpy's argsort), the pagination of eight articles per
  page with its previous/next buttons, what each displayed row shows
  (\<open>render_row\<close>), and the row loop (\<open>render_rows\<close>), which fails with Streamlit's
  duplicate-key error when two rows create a checkbox with the same key.  The Streamlit session is the record \<open>ui_state\<close>; the page after
  the articles are loaded is \<open>main_view\<close>, and one run of the whole script, loading and
  rendering included, is \<open>app_run\<close>.  The HTML and CSS around the displayed values are
  not modelled.
\<close>

section \<open>Definitions\<close>

subsection \<open>Pagination\<close>

definition items_per_page :: nat where
  "items_per_page = 8"

definition total_pages :: "nat \<Rightarrow> nat" where
  "total_pages n = (n + items_per_page - 1) div items_per_page"

text \<open>\<open>df.iloc[start:end]\<close> with \<open>start = page * 8\<close>.\<close>

definition page_slice :: "'a list \<Rightarrow> nat \<Rightarrow> 'a list" where
  "page_slice xs p = take items_per_page (drop (p * items_per_page) xs)"

text \<open>The button clicked in this run, if any (a click reruns the script).\<close>

datatype nav = Prev | Next

text \<open>
  \<open>display_paginated_articles\<close>: an empty frame shows nothing and leaves the page alone;
  otherwise the page (0 when unset) is clamped to the last page, its slice is shown, and
  a click on a button moves it when the move stays in range.
\<close>

definition display_paginated :: "'a list \<Rightarrow> nat option \<Rightarrow> nav option \<Rightarrow> 'a list \<times> nat option" where
  "display_paginated xs page click =
     (if xs = [] then ([], page)
      else let tp = total_pages (length xs);
               p = min (case page of None \<Rightarrow> 0 | Some p \<Rightarrow> p) (max (tp - 1) 0);
               p' = (case click of
                       None \<Rightarrow> p
                     | Some Prev \<Rightarrow> if 0 < p then p - 1 else p
                     | Some Next \<Rightarrow> if p < tp - 1 then p + 1 else p)
           in (page_slice xs p, Some p'))"

subsection \<open>Rendering of a row\<close>

text \<open>
  What one displayed row shows (lines 75--98): the row is dimmed when read, the title,
  the subtitle when it is not empty (a sheet cell is never \<open>NaN\<close>, so
  \<open>pd.notna\<close> holds and the test is the emptiness of the string), the author, the date
  printed by \<open>strftime\<close> or \<open>N/A\<close>, the link to the article and to its freedium
  mirror, and the "read" checkbox, initialised with the read flag, with the widget key
  \<open>stable_key("readchk", ItemKey)\<close> (theory \<open>StableKey\<close>), whose callback \<open>on_toggle\<close>
  receives that key and the row's \<open>ItemKey\<close>.  The HTML around these values is constant
  and not modelled.  A
  column missing from the frame raises \<open>KeyError\<close> at its first access, in the order
  Title, Subtitle, Date, Author, URL.
\<close>

text \<open>The key of an article's "read" checkbox (line 93).\<close>

definition chk_key :: "article \<Rightarrow> string" where
  "chk_key a = stable_key ''readchk'' (art_key a)"

record row_view =
  rv_dim :: bool
  rv_title :: string
  rv_subtitle :: "string option"
  rv_author :: string
  rv_date :: string
  rv_link :: string
  rv_mirror :: string
  rv_checked :: bool
  rv_chk_key :: string
  rv_item :: string

definition render_row :: "string list \<Rightarrow> article \<Rightarrow> exc + row_view" where
  "render_row hdr a =
     (case (col_index hdr ''Title'', col_index hdr ''Subtitle'', col_index hdr ''Date'',
            col_index hdr ''Author'', col_index hdr ''URL'') of
        (None, _) \<Rightarrow> Inl (KeyError ''Title'')
      | (Some _, None, _) \<Rightarrow> Inl (KeyError ''Subtitle'')
      | (Some _, Some _, None, _) \<Rightarrow> Inl (KeyError ''Date'')
      | (Some _, Some _, Some _, None, _) \<Rightarrow> Inl (KeyError ''Author'')
      | (Some _, Some _, Some _, Some _, None) \<Rightarrow> Inl (KeyError ''URL'')
      | (Some ti, Some si, Some _, Some ai, Some ui) \<Rightarrow>
          Inr \<lparr>rv_dim = art_read a, rv_title = art_row a ! ti,
               rv_subtitle = (if art_row a ! si = [] then None else Some (art_row a ! si)),
               rv_author = art_row a ! ai, rv_date = date_str (art_date a),
               rv_link = art_row a ! ui, rv_mirror = ''https://freedium.cfd/'' @ art_row a ! ui,
               rv_checked = art_read a, rv_chk_key = chk_key a,
               rv_item = art_key a\<rparr>)"

text \<open>The loop over the page's rows (line 75): the first failing row raises.  Each row
  creates its checkbox with the key \<open>rv_chk_key\<close>; Streamlit refuses a key already
  used in the same run, so the row whose key one of the rows before it created raises
  \<open>DuplicateWidgetKey\<close>.  \<open>seen\<close> holds the keys of the rows rendered so far.\<close>

fun render_rows_seen :: "string list \<Rightarrow> string list \<Rightarrow> article list \<Rightarrow> exc + row_view list" where
  "render_rows_seen seen hdr [] = Inr []"
| "render_rows_seen seen hdr (a # as) =
     (case render_row hdr a of
        Inl e \<Rightarrow> Inl e
      | Inr v \<Rightarrow>
          if rv_chk_key v \<in> set seen then Inl (DuplicateWidgetKey (rv_chk_key v))
          else (case render_rows_seen (rv_chk_key v # seen) hdr as of
                  Inl e \<Rightarrow> Inl e
                | Inr vs \<Rightarrow> Inr (v # vs)))"

definition render_rows :: "string list \<Rightarrow> article list \<Rightarrow> exc + row_view list" where
  "render_rows hdr xs = render_rows_seen [] hdr xs"

subsection \<open>Status counts and the status filter\<close>

text \<open>
  The options of the status radio (lines 154--158) are the labels "all (n)",
  "unread only (u)" and "read only (r)", written in Chinese with the counts in full-width
  parentheses: a label is its kind and its count.  The filter tests the kind by
  substring (lines 235--238), which the kind decides.
\<close>

datatype status_label = LblAll nat | LblUnread nat | LblRead nat

definition read_counts :: "article list \<Rightarrow> nat \<times> nat" where
  "read_counts arts = (length (filter art_read arts), length (filter (\<lambda>a. \<not> art_read a) arts))"

definition status_options :: "article list \<Rightarrow> status_label list" where
  "status_options arts =
     (let (r, u) = read_counts arts in [LblAll (length arts), LblUnread u, LblRead r])"

definition status_filter :: "status_label \<Rightarrow> article list \<Rightarrow> article list" where
  "status_filter c arts =
     (case c of
        LblUnread _ \<Rightarrow> filter (\<lambda>a. \<not> art_read a) arts
      | LblRead _ \<Rightarrow> filter art_read arts
      | LblAll _ \<Rightarrow> arts)"

subsection \<open>Category groups\<close>

definition ai_categories :: "string list" where
  "ai_categories =
     [''Agentic AI & AI Agents'', ''Retrieval-Augmented Generation (RAG)'',
      ''Multimodal AI (Vision/Audio/Video + Language)'', ''Prompt Engineering & In-Context Learning'',
      ''Fine-tuning & Embeddings'', ''Large Language Models (LLM)'',
      ''Natural Language Processing (non-LLM)'', ''Computer Vision (CV)'', ''Speech & Audio AI'',
      ''Deep Learning (non-LLM)'', ''Machine Learning (Classical)'', ''AI Algorithm'',
      ''AI Evaluation & Metrics'', ''AI Infrastructure, MLOps & Frameworks'',
      ''AI Applications (Business/Dev/Productivity)'', ''AI Policy, Governance & Safety'']"

definition non_ai_display_categories :: "string list" where
  "non_ai_display_categories =
     [''Data Science & Statistics'', ''Software Engineering & Programming'', ''Technology/Science'',
      ''Finance/Economics/Business'', ''Society/Culture/Other'']"

definition non_ai_label :: "string \<Rightarrow> string" where
  "non_ai_label d = ''Non-AI '' @ d"

text \<open>
  One sidebar group (lines 166--183 with \<open>grp = "ai"\<close> and the label itself; lines
  187--206 with \<open>grp = "nonai"\<close> and the label \<open>"Non-AI " + d\<close>).  The checkbox of a
  display name \<open>d\<close> has the session key \<open>grp_d\<close>; the select-all checkbox's previous
  value is kept under \<open>grp__all_prev\<close>.  When the select-all value differs from the
  previous one, every present category's checkbox is set to it.  Then each present
  category whose checkbox is on is selected.  The result is the new checkbox state and
  the selected labels.
\<close>

definition category_group ::
  "string \<Rightarrow> (string \<Rightarrow> string) \<Rightarrow> string list \<Rightarrow> string set \<Rightarrow> bool \<Rightarrow> (string \<rightharpoonup> bool)
     \<Rightarrow> (string \<rightharpoonup> bool) \<times> string list" where
  "category_group grp label_of displays cats all_val chk =
     (let prev_key = grp @ ''__all_prev'';
          prev = (case chk prev_key of None \<Rightarrow> False | Some b \<Rightarrow> b);
          chk1 = (if all_val \<noteq> prev
                  then (fold (\<lambda>d m. if label_of d \<in> cats then m(grp @ ''_'' @ d \<mapsto> all_val) else m)
                          displays chk)(prev_key \<mapsto> all_val)
                  else chk);
          sel = filter (\<lambda>d. label_of d \<in> cats \<and> chk1 (grp @ ''_'' @ d) = Some True) displays
      in (chk1, map label_of sel))"

subsection \<open>Session state and the reset of the page\<close>

record ui_state =
  checks :: "string \<rightharpoonup> bool"
  page :: "nat option"
  last_search :: "string option"
  last_selected :: "string list option"
  last_status :: "status_label option"

text \<open>Lines 213--227: the page starts at 0, and goes back to 0 whenever the search
  term, the tuple of selected labels or the status label differs from the last run's.\<close>

definition reset_page :: "string \<Rightarrow> string list \<Rightarrow> status_label \<Rightarrow> ui_state \<Rightarrow> ui_state" where
  "reset_page search sel status u =
     (let u0 = (if page u = None then u\<lparr>page := Some 0\<rparr> else u);
          u1 = (if last_search u0 \<noteq> Some search then u0\<lparr>page := Some 0, last_search := Some search\<rparr> else u0);
          u2 = (if last_selected u1 \<noteq> Some sel then u1\<lparr>page := Some 0, last_selected := Some sel\<rparr> else u1)
      in if last_status u2 \<noteq> Some status then u2\<lparr>page := Some 0, last_status := Some status\<rparr> else u2)"

subsection \<open>Filters and search\<close>

definition category_filter :: "nat \<Rightarrow> string list \<Rightarrow> article list \<Rightarrow> article list" where
  "category_filter ci sel arts = (if sel = [] then arts else filter (\<lambda>a. art_row a ! ci \<in> set sel) arts)"

subsection \<open>The library routines the page calls\<close>

text \<open>
  Two results of the page depend on library code beyond what its documentation fixes,
  so the model takes them as parameters.  pandas' \<open>str.contains(term, case=False)\<close>
  (with its default \<open>regex=True\<close>) compiles the term with Python's
  \<open>re.compile(term, re.IGNORECASE)\<close>, which raises \<open>re.error\<close> for a malformed pattern
  (which patterns are malformed depends on the Python version), and tests
  \<open>pattern.search(cell) is not None\<close> on each cell: \<open>re_compile_ic\<close> returns that test
  or the error.  numpy's \<open>argsort(kind='quicksort')\<close> orders the dates for
  \<open>sort_values\<close>: \<open>np_argsort\<close>, of which the page's lemmas assume what numpy promises
  (\<open>argsort_ok\<close>, theory \<open>Dates\<close>).  Every theorem about the page holds for every
  engine, so for Python's.
\<close>

record pylib =
  re_compile_ic :: "string \<Rightarrow> exc + (string \<Rightarrow> bool)"
  np_argsort :: "timestamp list \<Rightarrow> nat list"

text \<open>The search mask (lines 244--247): \<open>df["Title"]\<close>, then \<open>str.contains\<close> on it,
  which compiles the term, then \<open>df["Subtitle"]\<close> and \<open>str.contains\<close> on it; a row is
  kept when the pattern is found in its title or its subtitle.\<close>

definition search_filter ::
  "pylib \<Rightarrow> string list \<Rightarrow> string \<Rightarrow> article list \<Rightarrow> exc + article list" where
  "search_filter lib hdr term arts =
     (case col_index hdr ''Title'' of
        None \<Rightarrow> Inl (KeyError ''Title'')
      | Some ti \<Rightarrow>
          (case re_compile_ic lib term of
             Inl e \<Rightarrow> Inl e
           | Inr m \<Rightarrow>
               (case col_index hdr ''Subtitle'' of
                  None \<Rightarrow> Inl (KeyError ''Subtitle'')
                | Some si \<Rightarrow> Inr (filter (\<lambda>a. m (art_row a ! ti) \<or> m (art_row a ! si)) arts))))"

text \<open>The user's inputs to one run: the index of the status radio, the two select-all
  checkboxes, the search box and the clicked page button.  The category checkboxes are
  session state.\<close>

record ui_input =
  in_status :: nat
  in_ai_all :: bool
  in_nonai_all :: bool
  in_search :: string
  in_click :: "nav option"

text \<open>One run of the script after \<open>load_articles\<close> (lines 151--255): the articles shown
  and the new session, or the \<open>KeyError\<close> of a missing column, or the \<open>re.error\<close> of a
  search term that is not a regular expression.  The filtered articles are sorted by
  date, latest first, as \<open>sort_values("Date", ascending=False)\<close> does (line 240).\<close>

definition main_view ::
  "pylib \<Rightarrow> string list \<Rightarrow> article list \<Rightarrow> ui_input \<Rightarrow> ui_state \<Rightarrow> exc + article list \<times> ui_state" where
  "main_view lib hdr arts inp u =
     (case col_index hdr ''Category (20-class)'' of
        None \<Rightarrow> Inl (KeyError ''Category (20-class)'')
      | Some ci \<Rightarrow>
          let status = status_options arts ! in_status inp;
              cats = set (map (\<lambda>a. art_row a ! ci) arts);
              (chk1, sel1) = category_group ''ai'' id ai_categories cats (in_ai_all inp) (checks u);
              (chk2, sel2) = category_group ''nonai'' non_ai_label non_ai_display_categories cats
                               (in_nonai_all inp) chk1;
              sel = sorted_list_of_set (set (sel1 @ sel2));
              u1 = reset_page (in_search inp) sel status (u\<lparr>checks := chk2\<rparr>);
              filtered = status_filter status (category_filter ci sel arts)
          in case col_index hdr ''Date'' of
               None \<Rightarrow> Inl (KeyError ''Date'')
             | Some _ \<Rightarrow>
                 let sorted = sort_values_desc (np_argsort lib) art_date filtered in
                 if in_search inp = [] then
                   (let (shown, p) = display_paginated sorted (page u1) (in_click inp)
                    in Inr (shown, u1\<lparr>page := p\<rparr>))
                 else case search_filter lib hdr (in_search inp) sorted of
                   Inl e \<Rightarrow> Inl e
                 | Inr found \<Rightarrow>
                     (let (shown, p) = display_paginated found (page u1) (in_click inp)
                      in Inr (shown, u1\<lparr>page := p\<rparr>)))"

text \<open>The script itself (lines 118--122 and the page after them): load the articles, stop
  when the Articles sheet was empty (\<open>st.stop()\<close>), otherwise run the page and render
  the rows it shows.\<close>

definition app_run :: "pylib \<Rightarrow> ui_input \<Rightarrow> ui_state \<Rightarrow> ((row_view list \<times> ui_state) option, world) st" where
  "app_run lib inp u =
     rbind load_articles (\<lambda>r.
       case r of
         None \<Rightarrow> rreturn None
       | Some (hdr, arts) \<Rightarrow>
           (case main_view lib hdr arts inp u of
              Inl e \<Rightarrow> rraise e
            | Inr (shown, u') \<Rightarrow>
                (case render_rows hdr shown of
                   Inl e \<Rightarrow> rraise e
                 | Inr rows \<Rightarrow> rreturn (Some (rows, u')))))"


text \<open>Two articles of the page's examples, unread and read, dated a day apart.\<close>

definition example_articles :: "article list" where
  "example_articles =
     [\<lparr>art_row = [''2025-01-02'', ''Ann'', ''On RAG'', ''Notes'', ''http://a'', ''AI Algorithm''],
       art_key = ''http://a'', art_read = True, art_date = Some (2025, 1, 2)\<rparr>,
      \<lparr>art_row = [''2025-01-03'', ''Bo'', ''Ledgers'', ''Notes'', ''http://b'', ''Non-AI Technology/Science''],
       art_key = ''http://b'', art_read = False, art_date = Some (2025, 1, 3)\<rparr>]"

text \<open>A regular-expression engine for the examples: it reads every term as a literal,
  as Python's \<open>re\<close> does for a term without metacharacters; and the stable argsort.\<close>

definition example_lib :: pylib where
  "example_lib = \<lparr>re_compile_ic = (\<lambda>p. Inr (\<lambda>s. contains (lower p) (lower s))), np_argsort = stable_argsort\<rparr>"

section \<open>Lemmas\<close>

lemma concat_take_drop:
  "concat (map (\<lambda>p. take k (drop (p * k) xs)) [0..<n]) = take (n * k) xs"
proof (induction n)
  case (Suc n)
  have "take (n * k) xs @ take k (drop (n * k) xs) = take (n * k + k) xs"
    by (simp add: take_add)
  with Suc show ?case by (simp add: add.commute)
qed simp

lemma total_pages_cover: "n \<le> total_pages n * items_per_page"
  by (simp add: total_pages_def items_per_page_def)

lemma total_pages_pos: "0 < n \<Longrightarrow> 0 < total_pages n"
  by (simp add: total_pages_def items_per_page_def)

lemma last_page_start: "0 < n \<Longrightarrow> (total_pages n - 1) * items_per_page < n"
proof -
  assume n: "0 < n"
  have "(n + 7) div 8 * 8 \<le> n + 7" by (rule div_times_less_eq_dividend)
  with n show ?thesis
    by (simp add: total_pages_def items_per_page_def diff_mult_distrib)
qed

lemma page_slice_nonempty:
  assumes "p * items_per_page < length xs"
  shows "page_slice xs p \<noteq> []" "length (page_slice xs p) \<le> items_per_page"
  using assms by (simp_all add: page_slice_def items_per_page_def)

lemma display_paginated_shown:
  assumes "xs \<noteq> []" "display_paginated xs pg click = (shown, pg')"
  obtains p p' where "p = min (case pg of None \<Rightarrow> 0 | Some q \<Rightarrow> q) (total_pages (length xs) - 1)"
    "shown = page_slice xs p" "pg' = Some p'"
    "p' = (case click of
             None \<Rightarrow> p
           | Some Prev \<Rightarrow> if 0 < p then p - 1 else p
           | Some Next \<Rightarrow> if p < total_pages (length xs) - 1 then p + 1 else p)"
  using assms by (simp add: display_paginated_def Let_def)

lemma page_in_range:
  assumes "xs \<noteq> []" "p \<le> total_pages (length xs) - 1"
  shows "p * items_per_page < length xs"
proof -
  have "p * items_per_page \<le> (total_pages (length xs) - 1) * items_per_page"
    using assms(2) by simp
  also have "\<dots> < length xs" using assms(1) by (intro last_page_start) simp
  finally show ?thesis .
qed

lemma length_filter_update:
  "i < length xs \<Longrightarrow>
   length (filter P (xs[i := x])) + (if P (xs ! i) then 1 else 0) = length (filter P xs) + (if P x then 1 else 0)"
proof (induction xs arbitrary: i)
  case (Cons y ys)
  then show ?case by (cases i) auto
qed simp

lemma read_counts_toggle:
  assumes "i < length arts" "b \<noteq> art_read (arts ! i)"
  shows "fst (read_counts (arts[i := (arts ! i)\<lparr>art_read := b\<rparr>])) \<noteq> fst (read_counts arts)
    \<and> snd (read_counts (arts[i := (arts ! i)\<lparr>art_read := b\<rparr>])) \<noteq> snd (read_counts arts)"
  using length_filter_update [OF assms(1), of art_read "(arts ! i)\<lparr>art_read := b\<rparr>"]
    length_filter_update [OF assms(1), of "\<lambda>a. \<not> art_read a" "(arts ! i)\<lparr>art_read := b\<rparr>"] assms(2)
  by (cases b) (auto simp: read_counts_def)

lemma fold_update_present:
  "(fold (\<lambda>d m. if P d then m(k d \<mapsto> v) else m) ds chk) x =
   (if \<exists>d \<in> set ds. P d \<and> k d = x then Some v else chk x)"
  by (induction ds arbitrary: chk) auto

lemma col_index_Some: "x \<in> set xs \<Longrightarrow> \<exists>i. col_index xs x = Some i"
  by (induction xs) auto

lemma main_view_total:
  assumes "col_index hdr ''Category (20-class)'' = Some ci" "col_index hdr ''Date'' = Some di"
    "in_search inp \<noteq> [] \<Longrightarrow> col_index hdr ''Title'' = Some ti \<and> col_index hdr ''Subtitle'' = Some si
       \<and> re_compile_ic lib (in_search inp) = Inr m"
  shows "\<exists>shown u'. main_view lib hdr arts inp u = Inr (shown, u')"
  using assms by (cases "in_search inp = []") (auto simp: main_view_def search_filter_def Let_def split: prod.splits)

lemma render_cols:
  assumes "set [''Title'', ''Subtitle'', ''Date'', ''Author'', ''URL''] \<subseteq> set hdr"
  obtains ti si di ai ui where "col_index hdr ''Title'' = Some ti" "col_index hdr ''Subtitle'' = Some si"
    "col_index hdr ''Date'' = Some di" "col_index hdr ''Author'' = Some ai" "col_index hdr ''URL'' = Some ui"
  using assms col_index_Some [of _ hdr] by (metis insert_subset list.simps(15))

lemma render_rows_seen_Inr:
  assumes "set [''Title'', ''Subtitle'', ''Date'', ''Author'', ''URL''] \<subseteq> set hdr"
    "distinct (map chk_key xs)" "set (map chk_key xs) \<inter> set seen = {}"
  shows "\<exists>rows. render_rows_seen seen hdr xs = Inr rows \<and> length rows = length xs
    \<and> (\<forall>v \<in> set rows. \<exists>a \<in> set xs. rv_item v = art_key a \<and> rv_checked v = art_read a
          \<and> rv_dim v = art_read a \<and> rv_date v = date_str (art_date a) \<and> rv_chk_key v = chk_key a)"
proof -
  obtain ti si di ai ui where c: "col_index hdr ''Title'' = Some ti" "col_index hdr ''Subtitle'' = Some si"
    "col_index hdr ''Date'' = Some di" "col_index hdr ''Author'' = Some ai" "col_index hdr ''URL'' = Some ui"
    using render_cols [OF assms(1)] by blast
  show ?thesis
    using assms(2,3)
  proof (induction xs arbitrary: seen)
    case (Cons a xs)
    have "distinct (map chk_key xs)" "set (map chk_key xs) \<inter> set (chk_key a # seen) = {}"
      using Cons.prems by auto
    from Cons.IH [OF this] obtain rows where "render_rows_seen (chk_key a # seen) hdr xs = Inr rows"
      "length rows = length xs"
      "\<forall>v \<in> set rows. \<exists>a \<in> set xs. rv_item v = art_key a \<and> rv_checked v = art_read a
          \<and> rv_dim v = art_read a \<and> rv_date v = date_str (art_date a) \<and> rv_chk_key v = chk_key a"
      by blast
    then show ?case using Cons.prems by (auto simp: render_row_def c)
  qed simp
qed

lemma render_rows_seen_dup:
  assumes "set [''Title'', ''Subtitle'', ''Date'', ''Author'', ''URL''] \<subseteq> set hdr"
    "render_rows_seen seen hdr xs = Inl e"
  shows "\<exists>a \<in> set xs. e = DuplicateWidgetKey (chk_key a)
    \<and> \<not> (distinct (map chk_key xs) \<and> set (map chk_key xs) \<inter> set seen = {})"
proof -
  obtain ti si di ai ui where c: "col_index hdr ''Title'' = Some ti" "col_index hdr ''Subtitle'' = Some si"
    "col_index hdr ''Date'' = Some di" "col_index hdr ''Author'' = Some ai" "col_index hdr ''URL'' = Some ui"
    using render_cols [OF assms(1)] by blast
  show ?thesis
    using assms(2)
  proof (induction xs arbitrary: seen)
    case (Cons a xs)
    show ?case
    proof (cases "chk_key a \<in> set seen")
      case False
      then have "render_rows_seen (chk_key a # seen) hdr xs = Inl e"
        using Cons.prems by (auto simp: render_row_def c split: sum.splits)
      from Cons.IH [OF this] show ?thesis by auto
    qed (use Cons.prems in \<open>auto simp: render_row_def c\<close>)
  qed simp
qed

lemma render_rows_Inr:
  assumes "set [''Title'', ''Subtitle'', ''Date'', ''Author'', ''URL''] \<subseteq> set hdr"
    "distinct (map chk_key xs)"
  shows "\<exists>rows. render_rows hdr xs = Inr rows \<and> length rows = length xs
    \<and> (\<forall>v \<in> set rows. \<exists>a \<in> set xs. rv_item v = art_key a \<and> rv_checked v = art_read a
          \<and> rv_dim v = art_read a \<and> rv_date v = date_str (art_date a) \<and> rv_chk_key v = chk_key a)"
  using render_rows_seen_Inr [OF assms] by (simp add: render_rows_def)

lemma distinct_map_mset_subseteq:
  "mset ys \<subseteq># mset xs \<Longrightarrow> distinct (map g xs) \<Longrightarrow> distinct (map g ys)"
proof -
  assume s: "mset ys \<subseteq># mset xs" and d: "distinct (map g xs)"
  have "mset (map g ys) \<subseteq># mset (map g xs)" using image_mset_subseteq_mono [OF s] by simp
  then have "count (mset (map g ys)) a \<le> 1" for a
    using d mset_subset_eq_count [of "mset (map g ys)" "mset (map g xs)" a]
    by (simp add: distinct_count_atmost_1 split: if_splits)
  moreover have "count (mset (map g ys)) a = 0" if "a \<notin> set (map g ys)" for a
    using that by (simp add: count_eq_zero_iff)
  moreover have "0 < count (mset (map g ys)) a" if "a \<in> set (map g ys)" for a
    using that by (simp only: set_mset_mset [symmetric] count_greater_zero_iff)
  ultimately show ?thesis
    unfolding distinct_count_atmost_1 [of "map g ys"] by (metis One_nat_def Suc_leI antisym)
qed

lemma mset_page_slice: "mset (page_slice xs p) \<subseteq># mset xs"
proof -
  have "mset (page_slice xs p) \<subseteq># mset (drop (p * items_per_page) xs)"
    unfolding page_slice_def by (metis append_take_drop_id mset_append mset_subset_eq_add_left)
  also have "\<dots> \<subseteq># mset xs" by (metis append_take_drop_id mset_append mset_subset_eq_add_right)
  finally show ?thesis .
qed

lemma mset_display_paginated:
  "display_paginated xs pg click = (shown, pg') \<Longrightarrow> mset shown \<subseteq># mset xs"
  using mset_page_slice [of xs] by (cases "xs = []") (auto simp: display_paginated_def Let_def)

lemma mset_filters:
  "mset xs \<subseteq># M \<Longrightarrow> mset (status_filter c xs) \<subseteq># M"
  "mset xs \<subseteq># M \<Longrightarrow> mset (category_filter ci sel xs) \<subseteq># M"
  by (auto simp: status_filter_def category_filter_def split: status_label.splits
      intro: subset_mset.order_trans [OF multiset_filter_subset])

lemma page_slice_subset:
  "set (page_slice xs p) \<subseteq> set xs \<and> length (page_slice xs p) \<le> items_per_page"
  by (auto simp: page_slice_def dest: in_set_takeD in_set_dropD)

lemma display_paginated_subset:
  assumes "display_paginated xs pg click = (shown, pg')"
  shows "set shown \<subseteq> set xs \<and> length shown \<le> items_per_page"
  using assms page_slice_subset [of xs]
  by (cases "xs = []") (auto simp: display_paginated_def Let_def)

lemma status_filter_options:
  assumes "a \<in> set (status_filter (status_options arts ! i) xs)" "i < 3"
  shows "a \<in> set xs \<and> (i = 1 \<longrightarrow> \<not> art_read a) \<and> (i = 2 \<longrightarrow> art_read a)"
proof -
  have "i = 0 \<or> i = 1 \<or> i = 2" using assms(2) by arith
  then show ?thesis
    using assms(1) by (elim disjE) (auto simp: status_filter_def status_options_def split: prod.splits)
qed

lemma display_paginated_sorted:
  "sorted_wrt R xs \<Longrightarrow> display_paginated xs pg click = (shown, pg') \<Longrightarrow> sorted_wrt R shown"
  by (cases "xs = []") (auto simp: display_paginated_def Let_def page_slice_def)

lemma search_filter_Inr:
  "search_filter lib hdr term xs = Inr ys \<Longrightarrow>
   \<exists>ti si m. col_index hdr ''Title'' = Some ti \<and> col_index hdr ''Subtitle'' = Some si
     \<and> re_compile_ic lib term = Inr m \<and> ys = filter (\<lambda>a. m (art_row a ! ti) \<or> m (art_row a ! si)) xs"
  by (auto simp: search_filter_def split: option.splits sum.splits)

text \<open>A successful run of the page, unfolded: the filtered and sorted articles, searched
  when the search box is not empty, then paginated.\<close>

lemma main_view_InrE:
  assumes "main_view lib hdr arts inp u = Inr (shown, u')"
  obtains ci sel found p where "col_index hdr ''Category (20-class)'' = Some ci"
    "in_search inp = [] \<Longrightarrow> found = sort_values_desc (np_argsort lib) art_date
        (status_filter (status_options arts ! in_status inp) (category_filter ci sel arts))"
    "in_search inp \<noteq> [] \<Longrightarrow> search_filter lib hdr (in_search inp) (sort_values_desc (np_argsort lib) art_date
        (status_filter (status_options arts ! in_status inp) (category_filter ci sel arts))) = Inr found"
    "display_paginated found p (in_click inp) = (shown, page u')"
  using assms unfolding main_view_def
  by (auto simp: Let_def split: option.splits if_splits prod.splits sum.splits)

lemma main_view_Inr:
  assumes "main_view lib hdr arts inp u = Inr (shown, u')" "argsort_ok (np_argsort lib)"
  shows "\<exists>ci sel xs p. col_index hdr ''Category (20-class)'' = Some ci
      \<and> display_paginated xs p (in_click inp) = (shown, page u')
      \<and> sorted_wrt (date_ge art_date) xs
      \<and> set xs \<subseteq> set (status_filter (status_options arts ! in_status inp) (category_filter ci sel arts))
      \<and> mset xs \<subseteq># mset (status_filter (status_options arts ! in_status inp) (category_filter ci sel arts))
      \<and> (in_search inp \<noteq> [] \<longrightarrow> (\<exists>ti si m. col_index hdr ''Title'' = Some ti
             \<and> col_index hdr ''Subtitle'' = Some si \<and> re_compile_ic lib (in_search inp) = Inr m
             \<and> set xs \<subseteq> {a. m (art_row a ! ti) \<or> m (art_row a ! si)}))"
proof -
  obtain ci sel found p where ci: "col_index hdr ''Category (20-class)'' = Some ci"
    and ns: "in_search inp = [] \<Longrightarrow> found = sort_values_desc (np_argsort lib) art_date
        (status_filter (status_options arts ! in_status inp) (category_filter ci sel arts))"
    and sr: "in_search inp \<noteq> [] \<Longrightarrow> search_filter lib hdr (in_search inp) (sort_values_desc (np_argsort lib) art_date
        (status_filter (status_options arts ! in_status inp) (category_filter ci sel arts))) = Inr found"
    and dp: "display_paginated found p (in_click inp) = (shown, page u')"
    by (rule main_view_InrE [OF assms(1)]) blast
  let ?F = "status_filter (status_options arts ! in_status inp) (category_filter ci sel arts)"
  let ?S = "sort_values_desc (np_argsort lib) art_date ?F"
  have S: "sorted_wrt (date_ge art_date) ?S" "mset ?S = mset ?F"
    using sorted_sort_values_desc [OF assms(2)] mset_sort_values_desc [OF assms(2)] by blast+
  have "sorted_wrt (date_ge art_date) found \<and> mset found \<subseteq># mset ?F
    \<and> (in_search inp \<noteq> [] \<longrightarrow> (\<exists>ti si m. col_index hdr ''Title'' = Some ti
             \<and> col_index hdr ''Subtitle'' = Some si \<and> re_compile_ic lib (in_search inp) = Inr m
             \<and> set found \<subseteq> {a. m (art_row a ! ti) \<or> m (art_row a ! si)}))"
  proof (cases "in_search inp = []")
    case True
    then show ?thesis using ns S by simp
  next
    case False
    from search_filter_Inr [OF sr [OF False]] obtain ti si m where
      f: "col_index hdr ''Title'' = Some ti" "col_index hdr ''Subtitle'' = Some si"
      "re_compile_ic lib (in_search inp) = Inr m"
      "found = filter (\<lambda>a. m (art_row a ! ti) \<or> m (art_row a ! si)) ?S" by blast
    have "mset found \<subseteq># mset ?S" using f(4) by simp
    then show ?thesis using f S False by (auto simp: sorted_wrt_filter)
  qed
  note A = this
  have sub: "set found \<subseteq> set ?F" using A by (auto dest: mset_subset_eqD)
  show ?thesis
    apply (rule exI [of _ ci], rule exI [of _ sel], rule exI [of _ found], rule exI [of _ p])
    using A ci dp sub by simp
qed

lemma main_view_subset:
  assumes "main_view lib hdr arts inp u = Inr (shown, u')" "argsort_ok (np_argsort lib)"
  shows "\<exists>ci sel. set shown \<subseteq> set (status_filter (status_options arts ! in_status inp)
                                   (category_filter ci sel arts))"
proof -
  from main_view_Inr [OF assms] obtain ci sel xs p where
    "display_paginated xs p (in_click inp) = (shown, page u')"
    "set xs \<subseteq> set (status_filter (status_options arts ! in_status inp) (category_filter ci sel arts))"
    by blast
  with display_paginated_subset show ?thesis by blast
qed

lemma render_rows_seen_distinct:
  "render_rows_seen seen hdr xs = Inr rows \<Longrightarrow>
   distinct (map chk_key xs) \<and> set (map chk_key xs) \<inter> set seen = {}"
proof (induction xs arbitrary: seen rows)
  case (Cons a xs)
  then obtain v vs where v: "render_row hdr a = Inr v" "chk_key a \<notin> set seen"
    "render_rows_seen (chk_key a # seen) hdr xs = Inr vs"
    by (auto simp: render_row_def split: sum.splits if_splits option.splits)
  then show ?case using Cons.IH [OF v(3)] by auto
qed simp

lemma main_view_distinct:
  assumes "main_view lib hdr arts inp u = Inr (shown, u')" "argsort_ok (np_argsort lib)" "distinct (map g arts)"
  shows "distinct (map g shown)"
proof -
  obtain ci sel xs p where dp: "display_paginated xs p (in_click inp) = (shown, page u')" and
    m: "mset xs \<subseteq># mset (status_filter (status_options arts ! in_status inp) (category_filter ci sel arts))"
    using main_view_Inr [OF assms(1,2)] by blast
  have "mset xs \<subseteq># mset arts"
    using m by (blast intro: mset_filters subset_mset.order_trans)
  then have "mset shown \<subseteq># mset arts"
    using mset_display_paginated [OF dp] by (rule subset_mset.order_trans [rotated])
  then show ?thesis using assms(3) by (rule distinct_map_mset_subseteq)
qed

section \<open>Properties of the page\<close>

text \<open>
  C31. The pages partition the article list: the slices of pages 0 to
  \<open>total_pages - 1\<close>, in order, are the whole list, so every article is on exactly one
  page and the pages keep the list's order.
\<close>

theorem pages_partition:
  "concat (map (page_slice xs) [0..<total_pages (length xs)]) = xs"
proof -
  have "concat (map (page_slice xs) [0..<total_pages (length xs)])
        = take (total_pages (length xs) * items_per_page) xs"
    unfolding page_slice_def by (rule concat_take_drop)
  then show ?thesis using total_pages_cover [of "length xs"] by simp
qed

text \<open>
  C32. On a non-empty list, whatever page the session holds and whatever button is
  clicked, \<open>display_paginated_articles\<close> shows between one and eight articles and leaves
  the session's page within the range of pages: the clamp and the guarded buttons keep
  the page valid.
\<close>

theorem display_paginated_in_range:
  assumes "xs \<noteq> []" "display_paginated xs pg click = (shown, pg')"
  shows "shown \<noteq> [] \<and> length shown \<le> items_per_page \<and> (\<exists>p'. pg' = Some p' \<and> p' < total_pages (length xs))"
proof -
  obtain p p' where p: "p = min (case pg of None \<Rightarrow> 0 | Some q \<Rightarrow> q) (total_pages (length xs) - 1)"
    and shown: "shown = page_slice xs p" and pg': "pg' = Some p'"
    and p': "p' = (case click of
             None \<Rightarrow> p
           | Some Prev \<Rightarrow> if 0 < p then p - 1 else p
           | Some Next \<Rightarrow> if p < total_pages (length xs) - 1 then p + 1 else p)"
    by (rule display_paginated_shown [OF assms])
  have tp: "0 < total_pages (length xs)" using assms(1) by (simp add: total_pages_pos)
  have "p \<le> total_pages (length xs) - 1" unfolding p by (rule min.cobounded2)
  with assms(1) have "p * items_per_page < length xs" by (rule page_in_range)
  then have "shown \<noteq> []" "length shown \<le> items_per_page"
    unfolding shown by (rule page_slice_nonempty)+
  moreover have "p' < total_pages (length xs)"
    using p p' tp by (auto split: option.splits nav.splits)
  ultimately show ?thesis using pg' by blast
qed



text \<open>
  C34. Select-all: in the run where a group's select-all checkbox changes, the group's
  selection becomes every category of the group present in the data (in the group's
  order) when it is switched on, and nothing when it is switched off, whatever the
  individual checkboxes held before.
\<close>

theorem select_all_toggle:
  assumes "''_all_prev'' \<notin> set ds"
    "v \<noteq> (case chk (grp @ ''__all_prev'') of None \<Rightarrow> False | Some b \<Rightarrow> b)"
  shows "snd (category_group grp lbl ds cats v chk) = (if v then map lbl (filter (\<lambda>d. lbl d \<in> cats) ds) else [])"
proof -
  let ?prev = "grp @ ''__all_prev''"
  let ?chk1 = "fold (\<lambda>d m. if lbl d \<in> cats then m(grp @ ''_'' @ d \<mapsto> v) else m) ds chk"
  have "(lbl d \<in> cats \<and> (?chk1(?prev \<mapsto> v)) (grp @ ''_'' @ d) = Some True) = (lbl d \<in> cats \<and> v)"
    if d: "d \<in> set ds" for d
  proof -
    have "grp @ ''_'' @ d \<noteq> ?prev" using assms(1) d by auto
    then have "(?chk1(?prev \<mapsto> v)) (grp @ ''_'' @ d) = ?chk1 (grp @ ''_'' @ d)"
      by (rule fun_upd_other)
    moreover have "lbl d \<in> cats \<Longrightarrow> ?chk1 (grp @ ''_'' @ d) = Some v"
      unfolding fold_update_present using d by auto
    ultimately show ?thesis by auto
  qed
  then have "filter (\<lambda>d. lbl d \<in> cats \<and> (?chk1(?prev \<mapsto> v)) (grp @ ''_'' @ d) = Some True) ds
             = filter (\<lambda>d. lbl d \<in> cats \<and> v) ds"
    by (rule filter_cong [OF refl])
  moreover have "category_group grp lbl ds cats v chk =
    (?chk1(?prev \<mapsto> v),
     map lbl (filter (\<lambda>d. lbl d \<in> cats \<and> (?chk1(?prev \<mapsto> v)) (grp @ ''_'' @ d) = Some True) ds))"
    unfolding category_group_def Let_def using assms(2) by simp
  ultimately show ?thesis by simp
qed

text \<open>
  C23. The page number is reset exactly when a filter input changes: after the reset the
  session records this run's search term, selection and status label, and its page is
  kept (0 when unset) if all three equal the last run's, and is 0 otherwise.
\<close>

theorem reset_page_spec:
  "page (reset_page s sel c u) =
     (if last_search u = Some s \<and> last_selected u = Some sel \<and> last_status u = Some c
      then Some (case page u of None \<Rightarrow> 0 | Some p \<Rightarrow> p) else Some 0)
   \<and> last_search (reset_page s sel c u) = Some s \<and> last_selected (reset_page s sel c u) = Some sel
   \<and> last_status (reset_page s sel c u) = Some c \<and> checks (reset_page s sel c u) = checks u"
  by (cases "page u") (simp_all add: reset_page_def Let_def)

text \<open>
  C36. Toggling the read flag of one article changes the label of the "unread only" and
  "read only" options, because each carries its count; so when one of them is the
  selected filter the next run sees a different status label and sends the reader
  back to the first page.  The label of "all" does not change.
\<close>

theorem toggle_resets_page:
  assumes "i < length arts" "b \<noteq> art_read (arts ! i)" "k \<in> {1, 2}"
  shows "page (reset_page s sel (status_options (arts[i := (arts ! i)\<lparr>art_read := b\<rparr>]) ! k)
                 (u\<lparr>last_status := Some (status_options arts ! k)\<rparr>)) = Some 0
    \<and> status_options (arts[i := (arts ! i)\<lparr>art_read := b\<rparr>]) ! 0 = status_options arts ! 0"
proof -
  let ?arts' = "arts[i := (arts ! i)\<lparr>art_read := b\<rparr>]"
  note neq = read_counts_toggle [OF assms(1,2)]
  then have "status_options ?arts' ! k \<noteq> status_options arts ! k"
    using assms(3) by (auto simp: status_options_def split: prod.splits)
  then show ?thesis by (simp add: reset_page_def Let_def status_options_def read_counts_def)
qed

text \<open>
  C37. One run of the page script shows at most eight articles, latest date first and
  every \<open>NaT\<close> after every date, each of them a loaded article that passes the status
  filter the reader chose ("unread only" shows no read article, "read only" no unread
  one) and, when the search box is not empty, whose title or subtitle the compiled
  search pattern matches.  This holds for every regular-expression engine and every
  argsort that keeps numpy's promise.
\<close>

theorem main_view_shown:
  assumes "main_view lib hdr arts inp u = Inr (shown, u')" "in_status inp < 3" "argsort_ok (np_argsort lib)"
  shows "length shown \<le> items_per_page \<and> sorted_wrt (date_ge art_date) shown
    \<and> (\<forall>a\<in>set shown. a \<in> set arts \<and> (in_status inp = 1 \<longrightarrow> \<not> art_read a)
          \<and> (in_status inp = 2 \<longrightarrow> art_read a)
          \<and> (in_search inp \<noteq> [] \<longrightarrow> (\<exists>ti si m. col_index hdr ''Title'' = Some ti
               \<and> col_index hdr ''Subtitle'' = Some si \<and> re_compile_ic lib (in_search inp) = Inr m
               \<and> (m (art_row a ! ti) \<or> m (art_row a ! si)))))"
proof -
  obtain ci sel xs p where
    dp: "display_paginated xs p (in_click inp) = (shown, page u')" and
    srt: "sorted_wrt (date_ge art_date) xs" and
    sub: "set xs \<subseteq> set (status_filter (status_options arts ! in_status inp) (category_filter ci sel arts))" and
    srch: "in_search inp \<noteq> [] \<longrightarrow> (\<exists>ti si m. col_index hdr ''Title'' = Some ti
             \<and> col_index hdr ''Subtitle'' = Some si \<and> re_compile_ic lib (in_search inp) = Inr m
             \<and> set xs \<subseteq> {a. m (art_row a ! ti) \<or> m (art_row a ! si)})"
    using main_view_Inr [OF assms(1,3)] by blast
  have shown: "set shown \<subseteq> set xs" "length shown \<le> items_per_page"
    using display_paginated_subset [OF dp] by simp_all
  have "a \<in> set arts \<and> (in_status inp = 1 \<longrightarrow> \<not> art_read a) \<and> (in_status inp = 2 \<longrightarrow> art_read a)"
    if "a \<in> set shown" for a
  proof -
    have "a \<in> set (status_filter (status_options arts ! in_status inp) (category_filter ci sel arts))"
      using that shown(1) sub by blast
    from status_filter_options [OF this assms(2)] show ?thesis
      by (auto simp: category_filter_def split: if_splits)
  qed
  moreover have "\<exists>ti si m. col_index hdr ''Title'' = Some ti \<and> col_index hdr ''Subtitle'' = Some si
      \<and> re_compile_ic lib (in_search inp) = Inr m \<and> (m (art_row a ! ti) \<or> m (art_row a ! si))"
    if "a \<in> set shown" "in_search inp \<noteq> []" for a
    using srch that shown(1) by blast
  ultimately show ?thesis
    using shown(2) display_paginated_sorted [OF srt dp] by blast
qed

text \<open>
  C9. The search term is a regular expression: pandas' \<open>str.contains\<close> defaults to
  \<open>regex=True\<close>.  Once the category, date and title columns exist, a run with a
  non-empty search term fails exactly when the regular-expression engine rejects the
  term, with the engine's \<open>re.error\<close>, or when the term compiles and the Subtitle
  column is missing, with \<open>KeyError\<close>; the term is compiled before the Subtitle
  column is read.
\<close>

theorem main_view_search_error:
  assumes "col_index hdr ''Category (20-class)'' = Some ci" "col_index hdr ''Date'' = Some di"
    "col_index hdr ''Title'' = Some ti" "in_search inp \<noteq> []"
  shows "main_view lib hdr arts inp u = Inl e \<longleftrightarrow>
    re_compile_ic lib (in_search inp) = Inl e
    \<or> (\<exists>m. re_compile_ic lib (in_search inp) = Inr m) \<and> col_index hdr ''Subtitle'' = None
       \<and> e = KeyError ''Subtitle''"
  using assms
  by (auto simp: main_view_def search_filter_def Let_def split: prod.splits sum.splits option.splits)

text \<open>
  C33. Rendering a page's rows, once the columns it reads exist, succeeds exactly when
  the rows' checkbox keys \<open>chk_key\<close> are pairwise distinct; otherwise it raises
  Streamlit's duplicate-key error naming the key of one of the rows.  Since the key
  depends on the URL only, two rows with the same URL on one page make the page fail.
\<close>

theorem render_rows_duplicate_key:
  assumes "set [''Title'', ''Subtitle'', ''Date'', ''Author'', ''URL''] \<subseteq> set hdr"
  shows "(\<exists>rows. render_rows hdr xs = Inr rows) = distinct (map chk_key xs)
    \<and> (\<forall>e. render_rows hdr xs = Inl e \<longrightarrow> (\<exists>a \<in> set xs. e = DuplicateWidgetKey (chk_key a)))"
proof (cases "render_rows hdr xs")
  case (Inl e)
  then show ?thesis using render_rows_seen_dup [OF assms, of "[]" xs e] by (auto simp: render_rows_def)
next
  case (Inr rows)
  then show ?thesis using render_rows_seen_distinct [of "[]" hdr xs rows] by (auto simp: render_rows_def)
qed

section \<open>Witnesses\<close>

theorem display_paginated_in_range_witness:
  "display_paginated [1..<20::nat] (Some 5) (Some Next) = ([17, 18, 19], Some 2)
   \<and> [17, 18, 19::nat] \<noteq> [] \<and> length [17, 18, 19::nat] \<le> items_per_page
   \<and> (\<exists>p'. Some (2::nat) = Some p' \<and> p' < total_pages (length [1..<20::nat]))"
proof -
  have eq: "display_paginated [1..<20::nat] (Some 5) (Some Next) = ([17, 18, 19], Some 2)"
    by (simp add: display_paginated_def total_pages_def items_per_page_def page_slice_def upt_rec)
  from display_paginated_in_range [OF _ eq] eq show ?thesis by simp
qed

theorem select_all_toggle_witness:
  "snd (category_group ''ai'' id ai_categories {''AI Algorithm'', ''Computer Vision (CV)''} True Map.empty)
   = [''Computer Vision (CV)'', ''AI Algorithm'']"
  using select_all_toggle [where ds = ai_categories and v = True and chk = Map.empty and grp = "''ai''"
      and lbl = id and cats = "{''AI Algorithm'', ''Computer Vision (CV)''}"]
  by (simp add: ai_categories_def)

theorem toggle_resets_page_witness:
  "page (reset_page ''x'' [] (status_options [\<lparr>art_row = [''u''], art_key = ''u'', art_read = True, art_date = None\<rparr>] ! 1)
     \<lparr>checks = Map.empty, page = Some 3, last_search = Some ''x'', last_selected = Some [],
      last_status = Some (status_options [\<lparr>art_row = [''u''], art_key = ''u'', art_read = False, art_date = None\<rparr>] ! 1)\<rparr>)
   = Some 0"
  using toggle_resets_page [of 0 "[\<lparr>art_row = [''u''], art_key = ''u'', art_read = False, art_date = None\<rparr>]" True 1 "''x''" "[]"
      "\<lparr>checks = Map.empty, page = Some 3, last_search = Some ''x'', last_selected = Some [],
        last_status = None\<rparr>"]
  by simp

theorem main_view_shown_witness:
  "main_view example_lib REQUIRED_COLS example_articles
     \<lparr>in_status = 0, in_ai_all = False, in_nonai_all = False, in_search = [], in_click = None\<rparr>
     \<lparr>checks = Map.empty, page = None, last_search = None, last_selected = None, last_status = None\<rparr>
   = Inr (rev example_articles, \<lparr>checks = Map.empty, page = Some 0, last_search = Some [],
           last_selected = Some [], last_status = Some (LblAll 2)\<rparr>)
   \<and> length (rev example_articles) \<le> items_per_page
   \<and> sorted_wrt (date_ge art_date) (rev example_articles)"
proof -
  have eq: "main_view example_lib REQUIRED_COLS example_articles
     \<lparr>in_status = 0, in_ai_all = False, in_nonai_all = False, in_search = [], in_click = None\<rparr>
     \<lparr>checks = Map.empty, page = None, last_search = None, last_selected = None, last_status = None\<rparr>
   = Inr (rev example_articles, \<lparr>checks = Map.empty, page = Some 0, last_search = Some [],
           last_selected = Some [], last_status = Some (LblAll 2)\<rparr>)"
    by (simp add: main_view_def REQUIRED_COLS_def example_articles_def category_group_def
        status_options_def read_counts_def status_filter_def category_filter_def
        display_paginated_def Let_def total_pages_def items_per_page_def page_slice_def
        reset_page_def sort_values_desc_def example_lib_def stable_argsort_def)
  have ok: "argsort_ok (np_argsort example_lib)" by (simp add: example_lib_def argsort_ok_stable)
  from main_view_shown [OF eq _ ok] eq show ?thesis by simp
qed

theorem main_view_search_error_witness:
  "main_view \<lparr>re_compile_ic = (\<lambda>p. Inl (ReError ''unterminated subpattern'')), np_argsort = stable_argsort\<rparr>
     REQUIRED_COLS example_articles
     \<lparr>in_status = 0, in_ai_all = False, in_nonai_all = False, in_search = ''(ai'', in_click = None\<rparr>
     \<lparr>checks = Map.empty, page = None, last_search = None, last_selected = None, last_status = None\<rparr>
   = Inl (ReError ''unterminated subpattern'')"
proof -
  have c: "col_index REQUIRED_COLS ''Category (20-class)'' = Some 5" "col_index REQUIRED_COLS ''Date'' = Some 0"
    "col_index REQUIRED_COLS ''Title'' = Some 2" by (simp_all add: REQUIRED_COLS_def)
  show ?thesis
    using main_view_search_error [OF c, of "\<lparr>in_status = 0, in_ai_all = False, in_nonai_all = False,
        in_search = ''(ai'', in_click = None\<rparr>"] by simp
qed

theorem render_rows_duplicate_key_witness:
  "set [''Title'', ''Subtitle'', ''Date'', ''Author'', ''URL''] \<subseteq> set REQUIRED_COLS
   \<and> \<not> (\<exists>rows. render_rows REQUIRED_COLS
        [\<lparr>art_row = [''2025-01-02'', ''Ann'', ''On RAG'', ''Notes'', ''http://a'', ''AI Algorithm''],
          art_key = ''http://a'', art_read = True, art_date = Some (2025, 1, 2)\<rparr>,
         \<lparr>art_row = [''2025-01-02'', ''Ann'', ''On RAG (v2)'', ''Notes'', ''http://a'', ''AI Algorithm''],
          art_key = ''http://a'', art_read = True, art_date = Some (2025, 1, 2)\<rparr>] = Inr rows)"
  using render_rows_duplicate_key [of REQUIRED_COLS
      "[\<lparr>art_row = [''2025-01-02'', ''Ann'', ''On RAG'', ''Notes'', ''http://a'', ''AI Algorithm''],
          art_key = ''http://a'', art_read = True, art_date = Some (2025, 1, 2)\<rparr>,
         \<lparr>art_row = [''2025-01-02'', ''Ann'', ''On RAG (v2)'', ''Notes'', ''http://a'', ''AI Algorithm''],
          art_key = ''http://a'', art_read = True, art_date = Some (2025, 1, 2)\<rparr>]"]
  by (simp add: REQUIRED_COLS_def chk_key_def)

end
