(* ===== verification/Concurrency.thy ===== *)
theory Concurrency
  imports App
begin

text \<open>
  Concurrent sessions.  Streamlit runs every browser session's callbacks in its own
  thread of one process, so the process caches and the remote sheet are shared and
  the upserts of different sessions interleave at their remote calls; the code takes
  no lock.  \<open>upsert_read_status\<close> is split at the point where the interleaving
  matters: the read phase \<open>upsert_plan\<close> (lines 136--141: the worksheet, one read and
  the index lookup, giving the row to update or none) and the write phase
  \<open>upsert_commit\<close> (lines 142--147: the single-cell update or the append, then the
  cache clear).  \<open>upsert_split\<close> shows that running the two phases back to back is the
  upsert.  A configuration holds the shared world and the phase of each session; the
  step relation \<open>cstep\<close> lets any session take its next phase.  The invariant
  \<open>conc_inv\<close> (the sheet stays well formed and every pending plan names a row that holds
  its key) holds in every reachable configuration, and the lemmas on \<open>upsert_commit\<close>
  say when a commit reaches the abstract store and when it is lost.  The relation is
  well founded (each step finishes a phase, \<open>conc_rank\<close> counts those left), and every
  interleaving that cannot be extended has finished every session.
\<close>

section \<open>Definitions\<close>

definition upsert_plan :: "string \<Rightarrow> string \<Rightarrow> (ws \<times> nat option, world) st" where
  "upsert_plan sid key =
     rbind (get_or_create_worksheet sid status_sheet (Some status_header)) (\<lambda>h.
     rbind (safe_get_all_values h) (\<lambda>vals.
       case build_index 2 (status_rows vals) Map.empty of
         Inl e \<Rightarrow> rraise e
       | Inr index \<Rightarrow> rreturn (h, index key)))"

definition upsert_commit :: "string \<Rightarrow> bool \<Rightarrow> ws \<times> nat option \<Rightarrow> (unit, world) st" where
  "upsert_commit key flag p =
     (case p of (h, d) \<Rightarrow>
        rbind (case d of
                 Some row_no \<Rightarrow> safe_update_cell h row_no 2 (flag_str flag)
               | None \<Rightarrow> safe_append_row h [key, flag_str flag])
          (\<lambda>_. clear_data_cache))"

text \<open>The phase of one session's upsert.\<close>

datatype phase = Idle | Planned "ws \<times> nat option" | Done | Failed exc

record conc =
  cw :: world
  ph :: "phase list"

text \<open>Session \<open>i\<close> upserts \<open>ops ! i\<close> (key and flag) into spreadsheet \<open>sid\<close>.\<close>

inductive cstep :: "string \<Rightarrow> (string \<times> bool) list \<Rightarrow> conc \<Rightarrow> conc \<Rightarrow> bool" for sid ops where
  plan: "i < length (ph c) \<Longrightarrow> ph c ! i = Idle \<Longrightarrow> upsert_plan sid (fst (ops ! i)) (cw c) = (r, w') \<Longrightarrow>
    cstep sid ops c \<lparr>cw = w', ph = (ph c)[i := (case r of Inl e \<Rightarrow> Failed e | Inr p \<Rightarrow> Planned p)]\<rparr>"
| commit: "i < length (ph c) \<Longrightarrow> ph c ! i = Planned p \<Longrightarrow>
    upsert_commit (fst (ops ! i)) (snd (ops ! i)) p (cw c) = (r, w') \<Longrightarrow>
    cstep sid ops c \<lparr>cw = w', ph = (ph c)[i := (case r of Inl e \<Rightarrow> Failed e | Inr _ \<Rightarrow> Done)]\<rparr>"

text \<open>A pending plan of key \<open>k\<close> on sheet \<open>g\<close> is valid when it targets the status
  worksheet and, for an update, names a data row of \<open>g\<close> that holds \<open>k\<close>.\<close>

definition plan_ok :: "ws \<Rightarrow> string list list \<Rightarrow> string \<Rightarrow> phase \<Rightarrow> bool" where
  "plan_ok h g k q =
     (case q of
        Planned (h', d) \<Rightarrow> h' = h \<and> (case d of None \<Rightarrow> True | Some j \<Rightarrow> 2 \<le> j \<and> j - 1 < length g \<and> hd (g ! (j - 1)) = k)
      | Failed _ \<Rightarrow> False
      | _ \<Rightarrow> True)"

definition conc_inv :: "string \<Rightarrow> (string \<times> bool) list \<Rightarrow> ws \<Rightarrow> conc \<Rightarrow> bool" where
  "conc_inv sid ops h c \<longleftrightarrow>
     faults (cw c) = [] \<and> length (ph c) = length ops \<and>
     (case wsmap_cache (cw c) sid of None \<Rightarrow> False | Some m \<Rightarrow> m status_sheet = Some h) \<and>
     (case lookup_ws (cw c) h of
        None \<Rightarrow> False
      | Some t \<Rightarrow> status_wf (tab_grid t) \<and> list_all2 (\<lambda>q op. plan_ok h (tab_grid t) (fst op) q) (ph c) ops)"

text \<open>The work a session has left: two phases when idle, one when planned.\<close>

fun phase_rank :: "phase \<Rightarrow> nat" where
  "phase_rank Idle = 2"
| "phase_rank (Planned _) = 1"
| "phase_rank Done = 0"
| "phase_rank (Failed _) = 0"

definition conc_rank :: "conc \<Rightarrow> nat" where
  "conc_rank c = sum_list (map phase_rank (ph c))"

text \<open>An executable scheduler: one event of a schedule, and a whole schedule (none
  when some event is not enabled).\<close>

datatype event = EPlan nat | ECommit nat

definition sched_step :: "string \<Rightarrow> (string \<times> bool) list \<Rightarrow> event \<Rightarrow> conc \<Rightarrow> conc option" where
  "sched_step sid ops e c =
     (case e of
        EPlan i \<Rightarrow>
          if i < length (ph c) \<and> ph c ! i = Idle then
            (case upsert_plan sid (fst (ops ! i)) (cw c) of
               (r, w') \<Rightarrow> Some \<lparr>cw = w', ph = (ph c)[i := (case r of Inl e \<Rightarrow> Failed e | Inr p \<Rightarrow> Planned p)]\<rparr>)
          else None
      | ECommit i \<Rightarrow>
          if i < length (ph c) then
            (case ph c ! i of
               Planned p \<Rightarrow>
                 (case upsert_commit (fst (ops ! i)) (snd (ops ! i)) p (cw c) of
                    (r, w') \<Rightarrow> Some \<lparr>cw = w', ph = (ph c)[i := (case r of Inl e \<Rightarrow> Failed e | Inr _ \<Rightarrow> Done)]\<rparr>)
             | _ \<Rightarrow> None)
          else None)"

fun run_sched :: "string \<Rightarrow> (string \<times> bool) list \<Rightarrow> event list \<Rightarrow> conc \<Rightarrow> conc option" where
  "run_sched sid ops [] c = Some c"
| "run_sched sid ops (e # es) c =
     (case sched_step sid ops e c of None \<Rightarrow> None | Some c' \<Rightarrow> run_sched sid ops es c')"

section \<open>Lemmas\<close>

lemma status_rows_wf: "status_wf g \<Longrightarrow> status_rows (sheet_values g) = tl g"
  using sheet_values_status_wf [of g] status_wf_nonempty [of g]
  by (cases g) (auto simp: status_rows_def)

lemma plan_eq:
  assumes "status_ready w sid h t" "faults w = []" "status_wf (tab_grid t)"
  shows "upsert_plan sid key w =
    (Inr (h, last_match 2 (tl (tab_grid t)) key), w\<lparr>calls := calls w @ [GetAllValues h]\<rparr>)"
proof -
  from status_rows_wf [OF assms(3)] status_index [of "tab_grid t"] show ?thesis
    by (simp add: upsert_plan_def status_ready_hit [OF assms(1)] status_ready_read [OF assms(1,2)])
qed

lemma commit_append_eq:
  assumes "lookup_ws w h = Some t" "faults w = []"
  shows "upsert_commit key flag (h, None) w =
    (Inr (), (modify_grid h (\<lambda>g. g @ [[key, flag_str flag]])
               (w\<lparr>calls := calls w @ [AppendRow h [key, flag_str flag]]\<rparr>))\<lparr>data_cache := Map.empty\<rparr>)"
  using assms by (simp add: upsert_commit_def safe_append_row_def gs_append_row_def grid_op_def clear_data_cache_def)

lemma commit_update_eq:
  assumes "lookup_ws w h = Some t" "faults w = []" "2 \<le> j"
  shows "upsert_commit key flag (h, Some j) w =
    (Inr (), (modify_grid h (\<lambda>g. set_cell g (j - 1) 1 (user_entered (flag_str flag)))
               (w\<lparr>calls := calls w @ [UpdateCell h j 2 (flag_str flag)]\<rparr>))\<lparr>data_cache := Map.empty\<rparr>)"
  using assms by (simp add: upsert_commit_def safe_update_cell_def gs_update_cell_def grid_op_def clear_data_cache_def)

text \<open>The flag cell of a status row changes neither the length of the sheet nor the key
  of any row.\<close>

lemma set_cell_status_rows:
  assumes "status_wf g" "1 \<le> i" "i < length g"
  shows "length (set_cell g i 1 v) = length g" "\<forall>q < length g. hd (set_cell g i 1 v ! q) = hd (g ! q)"
proof -
  have "g ! i \<in> set (tl g)" using assms(2,3) by (cases g) (auto simp: in_set_conv_nth intro!: exI [of _ "i - 1"])
  then have len: "length (g ! i) = 2" using assms(1) by (simp add: status_wf_def)
  then show "length (set_cell g i 1 v) = length g" using assms(3) by (simp add: set_cell_in_range)
  have hd1: "hd ((g ! i)[Suc 0 := v]) = hd (g ! i)" using len by (cases "g ! i") simp_all
  show "\<forall>q < length g. hd (set_cell g i 1 v ! q) = hd (g ! q)"
    using assms(3) len hd1 by (auto simp: set_cell_in_range nth_list_update)
qed

lemma plan_ok_mono:
  "plan_ok h g k q \<Longrightarrow> length g \<le> length g' \<Longrightarrow> \<forall>r < length g. hd (g' ! r) = hd (g ! r) \<Longrightarrow> plan_ok h g' k q"
  by (auto simp: plan_ok_def split: phase.splits option.splits)

lemma list_all2_plan_ok_mono:
  "list_all2 (\<lambda>q op. plan_ok h g (fst op) q) qs ops \<Longrightarrow> length g \<le> length g' \<Longrightarrow>
   \<forall>r < length g. hd (g' ! r) = hd (g ! r) \<Longrightarrow> list_all2 (\<lambda>q op. plan_ok h g' (fst op) q) qs ops"
  by (auto simp: list_all2_conv_all_nth intro: plan_ok_mono)

lemma status_view_set_cell_shadowed:
  assumes "status_wf g" "2 \<le> j" "j - 1 < length g" "hd (g ! (j - 1)) = k"
    "last_match 2 (tl g) k \<noteq> Some j"
  shows "status_view (set_cell g (j - 1) 1 v) = status_view g"
proof -
  obtain rs where g: "g = status_header # rs" using assms(1) by (cases g) (auto simp: status_wf_def)
  have p: "j - 2 < length rs" "hd (rs ! (j - 2)) = k"
    using assms(2-4) g by (auto simp: nth_Cons') (metis Suc_diff_Suc Suc_le_lessD diff_Suc_1 numeral_2_eq_2)+
  then have "filter (\<lambda>q. hd (rs ! q) = k) [0..<length rs] \<noteq> []"
    by (auto simp: filter_empty_conv)
  then obtain j' where j': "last_match 2 rs k = Some j'"
    by (simp add: last_match_def Let_def)
  from last_match_Some [OF j'] have A: "2 \<le> j'" "j' - 2 < length rs" "hd (rs ! (j' - 2)) = k"
    "\<forall>p. j' - 2 < p \<and> p < length rs \<longrightarrow> hd (rs ! p) \<noteq> k" by auto
  have "j - 2 \<le> j' - 2"
  proof (rule ccontr)
    assume "\<not> j - 2 \<le> j' - 2"
    with A(4) p show False by auto
  qed
  then have q: "j - 2 < j' - 2" using assms(5) g j' assms(2) A(1) by (cases "j = j'") auto
  have len: "length (rs ! (j - 2)) = 2" using assms(1) g p(1) by (simp add: status_wf_def)
  have j1: "j - 1 = Suc (j - 2)" using assms(2) by simp
  have cell: "set_cell g (j - 1) 1 v = status_header # rs[j - 2 := (rs ! (j - 2))[1 := v]]"
    unfolding j1 using p(1) len by (simp add: g set_cell_in_range)
  have "hd ((rs ! (j - 2))[1 := v]) = k" using p(2) len by (cases "rs ! (j - 2)") simp_all
  then show ?thesis
    unfolding cell status_view_def
    using map_of_rev_map_update_shadowed [OF q, of rs "\<lambda>r. (hd r, parse_read (r ! 1))" k "(rs ! (j - 2))[1 := v]"]
      A(2,3) p(2)
    by (simp add: g)
qed


lemma plan_ok_simps [simp]:
  "plan_ok h g k Idle" "plan_ok h g k Done" "\<not> plan_ok h g k (Failed e)"
  by (simp_all add: plan_ok_def)

lemma plan_ok_last_match:
  assumes "status_wf g"
  shows "plan_ok h g k (Planned (h, last_match 2 (tl g) k))"
proof (cases "last_match 2 (tl g) k")
  case (Some j)
  from last_match_Some [OF Some] have j: "2 \<le> j" "j - 2 < length (tl g)" "hd (tl g ! (j - 2)) = k" by auto
  obtain x rs where g: "g = x # rs" using assms by (cases g) (auto simp: status_wf_def)
  have "j - 1 = Suc (j - 2)" using j(1) by simp
  with j g Some show ?thesis by (simp add: plan_ok_def)
qed (simp add: plan_ok_def)

lemma conc_invE:
  assumes "conc_inv sid ops h c"
  obtains m t where "faults (cw c) = []" "length (ph c) = length ops" "wsmap_cache (cw c) sid = Some m"
    "m status_sheet = Some h" "lookup_ws (cw c) h = Some t" "status_ready (cw c) sid h t"
    "status_wf (tab_grid t)" "list_all2 (\<lambda>q op. plan_ok h (tab_grid t) (fst op) q) (ph c) ops"
  using assms by (auto simp: conc_inv_def status_ready_def split: option.splits)

lemma list_all2_plan_ok_set:
  "list_all2 (\<lambda>q op. plan_ok h g (fst op) q) qs ops \<Longrightarrow> plan_ok h g (fst (ops ! i)) q \<Longrightarrow>
   list_all2 (\<lambda>q op. plan_ok h g (fst op) q) (qs[i := q]) ops"
  using list_all2_update_cong [of "\<lambda>q op. plan_ok h g (fst op) q" qs ops q "ops ! i" i] by simp

lemma cstep_plan_inv:
  assumes "conc_inv sid ops h c" "i < length (ph c)" "ph c ! i = Idle"
    "upsert_plan sid (fst (ops ! i)) (cw c) = (r, w')"
  shows "conc_inv sid ops h \<lparr>cw = w', ph = (ph c)[i := (case r of Inl e \<Rightarrow> Failed e | Inr p \<Rightarrow> Planned p)]\<rparr>"
proof -
  obtain m t where I: "faults (cw c) = []" "length (ph c) = length ops" "wsmap_cache (cw c) sid = Some m"
    "m status_sheet = Some h" "lookup_ws (cw c) h = Some t" "status_ready (cw c) sid h t"
    "status_wf (tab_grid t)" "list_all2 (\<lambda>q op. plan_ok h (tab_grid t) (fst op) q) (ph c) ops"
    using assms(1) by (rule conc_invE)
  have r: "r = Inr (h, last_match 2 (tl (tab_grid t)) (fst (ops ! i)))" "w' = cw c\<lparr>calls := calls (cw c) @ [GetAllValues h]\<rparr>"
    using plan_eq [OF I(6,1,7)] assms(4) by simp_all
  show ?thesis
    using I r plan_ok_last_match [OF I(7)]
    by (simp add: conc_inv_def list_all2_plan_ok_set)
qed

lemma list_all2_plan_ok_snoc:
  assumes "list_all2 (\<lambda>q op. plan_ok h g (fst op) q) qs ops"
  shows "list_all2 (\<lambda>q op. plan_ok h (g @ [x]) (fst op) q) qs ops"
  apply (rule list_all2_plan_ok_mono [OF assms])
   apply simp
  apply (simp add: nth_append)
  done

lemma cstep_commit_inv:
  assumes "conc_inv sid ops h c" "i < length (ph c)" "ph c ! i = Planned p"
    "upsert_commit (fst (ops ! i)) (snd (ops ! i)) p (cw c) = (r, w')"
  shows "conc_inv sid ops h \<lparr>cw = w', ph = (ph c)[i := (case r of Inl e \<Rightarrow> Failed e | Inr _ \<Rightarrow> Done)]\<rparr>"
proof -
  obtain m t where I: "faults (cw c) = []" "length (ph c) = length ops" "wsmap_cache (cw c) sid = Some m"
    "m status_sheet = Some h" "lookup_ws (cw c) h = Some t" "status_ready (cw c) sid h t"
    "status_wf (tab_grid t)" "list_all2 (\<lambda>q op. plan_ok h (tab_grid t) (fst op) q) (ph c) ops"
    using assms(1) by (rule conc_invE)
  let ?g = "tab_grid t"
  obtain d where p: "p = (h, d)" and ok: "plan_ok h ?g (fst (ops ! i)) (Planned (h, d))"
    using list_all2_nthD [OF I(8), of i] assms(2,3) I(2) by (cases p) (auto simp: plan_ok_def)
  show ?thesis
  proof (cases d)
    case None
    let ?g' = "?g @ [[fst (ops ! i), flag_str (snd (ops ! i))]]"
    have w': "r = Inr ()" "w' = (modify_grid h (\<lambda>g. g @ [[fst (ops ! i), flag_str (snd (ops ! i))]])
               (cw c\<lparr>calls := calls (cw c) @ [AppendRow h [fst (ops ! i), flag_str (snd (ops ! i))]]\<rparr>))\<lparr>data_cache := Map.empty\<rparr>"
      using commit_append_eq [OF I(5,1)] assms(4) p None by simp_all
    have "list_all2 (\<lambda>q op. plan_ok h ?g' (fst op) q) (ph c) ops"
      using I(8) by (rule list_all2_plan_ok_snoc)
    then have "list_all2 (\<lambda>q op. plan_ok h ?g' (fst op) q) ((ph c)[i := Done]) ops"
      by (rule list_all2_plan_ok_set) simp
    moreover have "lookup_ws w' h = Some (t\<lparr>tab_grid := ?g'\<rparr>)"
      using I(5) w'(2) by (simp add: lookup_ws_modify_grid)
    moreover have "wsmap_cache w' sid = Some m" "faults w' = []" using I(1,3) w'(2) by simp_all
    moreover have "status_wf ?g'" using status_wf_append [OF I(7)] by simp
    ultimately show ?thesis using I(2,4) w'(1) unfolding conc_inv_def by simp
  next
    case (Some j)
    have j: "2 \<le> j" "j - 1 < length ?g" using ok Some by (auto simp: plan_ok_def)
    let ?v = "user_entered (flag_str (snd (ops ! i)))"
    let ?g' = "set_cell ?g (j - 1) 1 ?v"
    have w': "r = Inr ()" "w' = (modify_grid h (\<lambda>g. set_cell g (j - 1) 1 ?v)
               (cw c\<lparr>calls := calls (cw c) @ [UpdateCell h j 2 (flag_str (snd (ops ! i)))]\<rparr>))\<lparr>data_cache := Map.empty\<rparr>"
      using commit_update_eq [OF I(5,1) j(1)] assms(4) p Some by simp_all
    have j1: "1 \<le> j - 1" using j(1) by simp
    note rows = set_cell_status_rows [OF I(7) j1 j(2), of ?v]
    have "list_all2 (\<lambda>q op. plan_ok h ?g' (fst op) q) (ph c) ops"
      using list_all2_plan_ok_mono [OF I(8) _ rows(2)] rows(1) by simp
    then have "list_all2 (\<lambda>q op. plan_ok h ?g' (fst op) q) ((ph c)[i := Done]) ops"
      by (rule list_all2_plan_ok_set) simp
    moreover have "lookup_ws w' h = Some (t\<lparr>tab_grid := ?g'\<rparr>)"
      using I(5) w'(2) by (simp add: lookup_ws_modify_grid)
    moreover have "wsmap_cache w' sid = Some m" "faults w' = []" using I(1,3) w'(2) by simp_all
    moreover have "status_wf ?g'" using status_wf_set_cell [OF I(7) j1 j(2)] by simp
    ultimately show ?thesis using I(2,4) w'(1) unfolding conc_inv_def by simp
  qed
qed

lemma cstep_conc_inv:
  assumes "cstep sid ops c c'" "conc_inv sid ops h c"
  shows "conc_inv sid ops h c'"
  using assms(1)
proof (cases rule: cstep.cases)
  case (plan i r w')
  then show ?thesis using cstep_plan_inv [OF assms(2)] by blast
next
  case (commit i p r w')
  then show ?thesis using cstep_commit_inv [OF assms(2)] by blast
qed

lemma sched_step_cstep: "sched_step sid ops e c = Some c' \<Longrightarrow> cstep sid ops c c'"
  by (auto simp: sched_step_def intro: cstep.intros split: event.splits if_splits phase.splits prod.splits)

lemma run_sched_steps: "run_sched sid ops es c = Some c' \<Longrightarrow> (cstep sid ops)\<^sup>*\<^sup>* c c'"
proof (induction es arbitrary: c)
  case (Cons e es)
  then obtain c1 where "sched_step sid ops e c = Some c1" "run_sched sid ops es c1 = Some c'"
    by (auto split: option.splits)
  with Cons.IH show ?case by (blast intro: sched_step_cstep converse_rtranclp_into_rtranclp)
qed simp

text \<open>One event of the scheduler on a configuration satisfying the invariant: a plan
  reads the sheet and looks the key up, a commit of an absent key appends its row, a
  commit of a present key writes the flag cell.\<close>

lemma lookup_ws_upd [simp]:
  "lookup_ws (w\<lparr>calls := cs\<rparr>) = lookup_ws w" "lookup_ws (w\<lparr>data_cache := dc\<rparr>) = lookup_ws w"
  by (simp_all add: lookup_ws_def fun_eq_iff)

lemma sched_plan_eq:
  assumes "conc_inv sid ops h c" "lookup_ws (cw c) h = Some t" "i < length (ph c)" "ph c ! i = Idle"
  shows "sched_step sid ops (EPlan i) c =
    Some \<lparr>cw = (cw c)\<lparr>calls := calls (cw c) @ [GetAllValues h]\<rparr>,
          ph = (ph c)[i := Planned (h, last_match 2 (tl (tab_grid t)) (fst (ops ! i)))]\<rparr>"
proof -
  obtain m t' where I: "faults (cw c) = []" "lookup_ws (cw c) h = Some t'" "status_ready (cw c) sid h t'"
    "status_wf (tab_grid t')"
    using assms(1) by (rule conc_invE)
  have "t' = t" using I(2) assms(2) by simp
  then show ?thesis using plan_eq [OF I(3,1,4), of "fst (ops ! i)"] assms(3,4) by (simp add: sched_step_def)
qed

lemma sched_commit_append_eq:
  assumes "faults (cw c) = []" "lookup_ws (cw c) h = Some t" "i < length (ph c)" "ph c ! i = Planned (h, None)"
  shows "sched_step sid ops (ECommit i) c =
    Some \<lparr>cw = (modify_grid h (\<lambda>g. g @ [[fst (ops ! i), flag_str (snd (ops ! i))]])
                ((cw c)\<lparr>calls := calls (cw c) @ [AppendRow h [fst (ops ! i), flag_str (snd (ops ! i))]]\<rparr>))
               \<lparr>data_cache := Map.empty\<rparr>,
          ph = (ph c)[i := Done]\<rparr>"
  using assms by (simp add: sched_step_def commit_append_eq [OF assms(2,1)])

lemma sched_commit_update_eq:
  assumes "faults (cw c) = []" "lookup_ws (cw c) h = Some t" "i < length (ph c)" "ph c ! i = Planned (h, Some j)"
    "2 \<le> j"
  shows "sched_step sid ops (ECommit i) c =
    Some \<lparr>cw = (modify_grid h (\<lambda>g. set_cell g (j - 1) 1 (user_entered (flag_str (snd (ops ! i)))))
                ((cw c)\<lparr>calls := calls (cw c) @ [UpdateCell h j 2 (flag_str (snd (ops ! i)))]\<rparr>))
               \<lparr>data_cache := Map.empty\<rparr>,
          ph = (ph c)[i := Done]\<rparr>"
  using assms by (simp add: sched_step_def commit_update_eq [OF assms(2,1,5)])

lemma sched_step_inv:
  "sched_step sid ops e c = Some c' \<Longrightarrow> conc_inv sid ops h c \<Longrightarrow> conc_inv sid ops h c'"
  by (rule cstep_conc_inv [OF sched_step_cstep])

lemma status_view_None: "status_view g k = None \<longleftrightarrow> k \<notin> hd ` set (tl g)"
  by (force simp: status_view_def map_of_eq_None_iff)

text \<open>The phases on the example world.\<close>

lemma plan_status_world:
  "status_wf g \<Longrightarrow> upsert_plan ''s1'' key ((status_world g)\<lparr>calls := cs\<rparr>) =
     (Inr (example_ws, last_match 2 (tl g) key), (status_world g)\<lparr>calls := cs @ [GetAllValues example_ws]\<rparr>)"
proof -
  assume "status_wf g"
  then have "status_wf (tab_grid (example_tab\<lparr>tab_grid := g\<rparr>))" by simp
  from plan_eq [OF status_world_calls_ready _ this, where key = key] show ?thesis
    by (simp add: status_world_def example_defs)
qed

lemma commit_append_status_world:
  "upsert_commit key f (example_ws, None) ((status_world g)\<lparr>calls := cs\<rparr>) =
     (Inr (), (status_world (g @ [[key, flag_str f]]))\<lparr>calls := cs @ [AppendRow example_ws [key, flag_str f]]\<rparr>)"
  using commit_append_eq [of "(status_world g)\<lparr>calls := cs\<rparr>" example_ws "example_tab\<lparr>tab_grid := g\<rparr>" key f]
  by (simp add: status_world_def example_defs modify_grid_def map_tab_def lookup_ws_def find_tab_def)

lemma commit_update_status_world:
  "2 \<le> j \<Longrightarrow> upsert_commit key f (example_ws, Some j) ((status_world g)\<lparr>calls := cs\<rparr>) =
     (Inr (), (status_world (set_cell g (j - 1) 1 (user_entered (flag_str f))))
                \<lparr>calls := cs @ [UpdateCell example_ws j 2 (flag_str f)]\<rparr>)"
  using commit_update_eq [of "(status_world g)\<lparr>calls := cs\<rparr>" example_ws "example_tab\<lparr>tab_grid := g\<rparr>" j key f]
  by (simp add: status_world_def example_defs modify_grid_def map_tab_def lookup_ws_def find_tab_def)

lemma status_world_calls_Nil: "(status_world g)\<lparr>calls := []\<rparr> = status_world g"
  by (simp add: status_world_def example_defs)

lemma plan_status_world0:
  "status_wf g \<Longrightarrow> upsert_plan ''s1'' key (status_world g) =
     (Inr (example_ws, last_match 2 (tl g) key), (status_world g)\<lparr>calls := [GetAllValues example_ws]\<rparr>)"
  using plan_status_world [of g key "[]"] by (simp add: status_world_calls_Nil)

lemma sum_list_map_update:
  "i < length xs \<Longrightarrow> sum_list (map f (xs[i := x])) + f (xs ! i) = sum_list (map f xs) + (f x :: nat)"
proof (induction xs arbitrary: i)
  case (Cons y ys)
  then show ?case by (cases i) auto
qed simp

lemma cstep_rank: "cstep sid ops c c' \<Longrightarrow> conc_rank c' < conc_rank c"
proof (induction rule: cstep.induct)
  case (plan c i r w')
  then show ?case
    using sum_list_map_update [OF plan(1), of phase_rank "case r of Inl e \<Rightarrow> Failed e | Inr p \<Rightarrow> Planned p"]
    by (auto simp: conc_rank_def split: sum.splits)
next
  case (commit c i p r w')
  then show ?case
    using sum_list_map_update [OF commit(1), of phase_rank "case r of Inl e \<Rightarrow> Failed e | Inr _ \<Rightarrow> Done"]
    by (auto simp: conc_rank_def split: sum.splits)
qed

text \<open>Every session that is not finished can take its next phase: the read and the
  write phase always return, with a value or an exception.\<close>

lemma cstep_progress:
  assumes "i < length (ph c)" "ph c ! i \<in> {Idle} \<union> range Planned"
  shows "\<exists>c'. cstep sid ops c c'"
proof (cases "ph c ! i")
  case Idle
  obtain r w' where "upsert_plan sid (fst (ops ! i)) (cw c) = (r, w')" by fastforce
  with assms(1) Idle show ?thesis by (blast intro: cstep.plan)
next
  case (Planned p)
  obtain r w' where "upsert_commit (fst (ops ! i)) (snd (ops ! i)) p (cw c) = (r, w')" by fastforce
  with assms(1) Planned show ?thesis by (blast intro: cstep.commit)
qed (use assms in auto)

lemma conc_inv_phases:
  assumes "conc_inv sid ops h c" "q \<in> set (ph c)"
  shows "q \<in> {Idle, Done} \<union> range Planned"
proof -
  obtain m t where "faults (cw c) = []" "length (ph c) = length ops" "lookup_ws (cw c) h = Some t"
    "status_wf (tab_grid t)" "list_all2 (\<lambda>q op. plan_ok h (tab_grid t) (fst op) q) (ph c) ops"
    using assms(1) by (rule conc_invE)
  with assms(2) obtain op where "plan_ok h (tab_grid t) (fst op) q"
    by (auto simp: list_all2_conv_all_nth in_set_conv_nth)
  then show ?thesis by (cases q) auto
qed

section \<open>Properties of concurrent upserts\<close>

text \<open>
  C10. However the read and write phases of the sessions' upserts interleave, from a
  configuration satisfying the invariant (no injected faults, the Registry knows the
  well-formed status sheet, every pending plan valid) every reachable configuration
  satisfies it: the status sheet stays well formed, no session fails, and every
  pending update names a data row that still holds its key.
\<close>

theorem conc_inv_reachable:
  assumes "conc_inv sid ops h c" "(cstep sid ops)\<^sup>*\<^sup>* c c'"
  shows "conc_inv sid ops h c'"
  using assms(2,1) by (induction rule: rtranclp_induct) (auto intro: cstep_conc_inv)

text \<open>
  C11. What a commit does to the abstract store, in any configuration satisfying the
  invariant: it succeeds, and the sheet afterwards maps the session's key to its flag
  when the plan was an append or named the row that is still the key's last; when
  another session has appended a later row for the key since the plan was made, the
  update lands on a shadowed row and the store is unchanged: the write is lost.
\<close>

theorem commit_view:
  assumes "conc_inv sid ops h c" "i < length (ph c)" "ph c ! i = Planned p"
    "lookup_ws (cw c) h = Some t" "upsert_commit (fst (ops ! i)) (snd (ops ! i)) p (cw c) = (r, w')"
  shows "r = Inr () \<and> (\<exists>t'. lookup_ws w' h = Some t' \<and> status_view (tab_grid t') =
    (if snd p = None \<or> snd p = last_match 2 (tl (tab_grid t)) (fst (ops ! i))
     then (status_view (tab_grid t))(fst (ops ! i) \<mapsto> snd (ops ! i)) else status_view (tab_grid t)))"
proof -
  obtain m t0 where I: "faults (cw c) = []" "length (ph c) = length ops" "lookup_ws (cw c) h = Some t0"
    "status_wf (tab_grid t0)" "list_all2 (\<lambda>q op. plan_ok h (tab_grid t0) (fst op) q) (ph c) ops"
    using assms(1) by (rule conc_invE)
  have t0: "t0 = t" using I(3) assms(4) by simp
  let ?g = "tab_grid t" and ?k = "fst (ops ! i)" and ?f = "snd (ops ! i)"
  obtain d where p: "p = (h, d)" and ok: "plan_ok h ?g ?k (Planned (h, d))"
    using list_all2_nthD [OF I(5), of i] assms(2,3) I(2) t0 by (cases p) (auto simp: plan_ok_def)
  show ?thesis
  proof (cases d)
    case None
    then show ?thesis
      using commit_append_eq [OF assms(4) I(1)] assms(4,5) p status_wf_nonempty [OF I(4)] t0
      by (auto simp: lookup_ws_modify_grid status_view_append)
  next
    case (Some j)
    have j: "2 \<le> j" "j - 1 < length ?g" "hd (?g ! (j - 1)) = ?k" using ok Some by (auto simp: plan_ok_def)
    have eq: "upsert_commit ?k ?f p (cw c) =
      (Inr (), (modify_grid h (\<lambda>g. set_cell g (j - 1) 1 (user_entered (flag_str ?f)))
                 (cw c\<lparr>calls := calls (cw c) @ [UpdateCell h j 2 (flag_str ?f)]\<rparr>))\<lparr>data_cache := Map.empty\<rparr>)"
      using commit_update_eq [OF assms(4) I(1) j(1)] p Some by simp
    show ?thesis
    proof (cases "Some j = last_match 2 (tl ?g) ?k")
      case True
      have wf: "status_wf ?g" using I(4) t0 by simp
      with True have "last_match 2 (status_rows (sheet_values ?g)) ?k = Some j" by (simp add: status_rows_wf)
      then have "status_view (set_cell ?g (j - 1) 1 (user_entered (flag_str ?f))) = (status_view ?g)(?k \<mapsto> ?f)"
        using status_view_set_cell [OF wf] by simp
      then show ?thesis using eq assms(4,5) p Some True by (auto simp: lookup_ws_modify_grid)
    next
      case False
      then have "status_view (set_cell ?g (j - 1) 1 (user_entered (flag_str ?f))) = status_view ?g"
        using status_view_set_cell_shadowed [of ?g j ?k] I(4) t0 j by simp
      then show ?thesis using eq assms(4,5) p Some False by (auto simp: lookup_ws_modify_grid)
    qed
  qed
qed


text \<open>
  The split is faithful: running the read phase and then the write phase with
  nothing in between is \<open>upsert_read_status\<close>, on every world and every branch.
\<close>

lemma upsert_split:
  "upsert_read_status sid key flag = rbind (upsert_plan sid key) (upsert_commit key flag)"
  by (simp add: upsert_read_status_def upsert_plan_def upsert_commit_def rbind_def fun_eq_iff
      split: prod.splits sum.splits)


lemma conc_inv_basic:
  assumes "conc_inv sid ops h c"
  shows "faults (cw c) = []" "length (ph c) = length ops"
    "\<exists>t. lookup_ws (cw c) h = Some t \<and> status_wf (tab_grid t)"
  using assms by (auto simp: conc_inv_def split: option.splits)

text \<open>
  C12. The race the specification accepts, for any sheet and any configuration of the
  sessions satisfying the invariant: two sessions upsert the same key, which the sheet
  does not hold, and both read before either writes.  Both plan an append, so the sheet
  ends with two rows for the key, in the order of the commits, and the later writer's
  flag is the one the key reads.
\<close>

theorem race_duplicate_rows:
  assumes inv: "conc_inv sid ops h c" and lk: "lookup_ws (cw c) h = Some t"
    and ij: "i < length ops" "j < length ops" "i \<noteq> j" "ph c ! i = Idle" "ph c ! j = Idle"
    and k: "fst (ops ! i) = k" "fst (ops ! j) = k" "status_view (tab_grid t) k = None"
  shows "\<exists>c'. run_sched sid ops [EPlan i, EPlan j, ECommit i, ECommit j] c = Some c'
    \<and> lookup_ws (cw c') h = Some (t\<lparr>tab_grid := tab_grid t @ [[k, flag_str (snd (ops ! i))], [k, flag_str (snd (ops ! j))]]\<rparr>)
    \<and> status_view (tab_grid t @ [[k, flag_str (snd (ops ! i))], [k, flag_str (snd (ops ! j))]]) k = Some (snd (ops ! j))
    \<and> ph c' = (ph c)[i := Done, j := Done]"
proof -
  let ?g = "tab_grid t"
  let ?fi = "flag_str (snd (ops ! i))"
  let ?fj = "flag_str (snd (ops ! j))"
  have len: "length (ph c) = length ops" by (rule conc_inv_basic(2) [OF inv])
  have wf: "status_wf ?g" using conc_inv_basic(3) [OF inv] lk by auto
  have lm: "last_match 2 (tl ?g) k = None" using k(3) by (simp add: last_match_None status_view_None)
  define c1 where "c1 = \<lparr>cw = (cw c)\<lparr>calls := calls (cw c) @ [GetAllValues h]\<rparr>, ph = (ph c)[i := Planned (h, None)]\<rparr>"
  have s1: "sched_step sid ops (EPlan i) c = Some c1"
    using sched_plan_eq [OF inv lk, where i = i] ij(1,4) len k(1) lm by (simp add: c1_def)
  have inv1: "conc_inv sid ops h c1" by (rule sched_step_inv [OF s1 inv])
  define c2 where "c2 = \<lparr>cw = (cw c1)\<lparr>calls := calls (cw c1) @ [GetAllValues h]\<rparr>, ph = (ph c1)[j := Planned (h, None)]\<rparr>"
  have s2: "sched_step sid ops (EPlan j) c1 = Some c2"
    using sched_plan_eq [OF inv1, where t = t and i = j] lk ij len k(2) lm by (simp add: c1_def c2_def)
  have inv2: "conc_inv sid ops h c2" by (rule sched_step_inv [OF s2 inv1])
  define c3 where "c3 = \<lparr>cw = (modify_grid h (\<lambda>g. g @ [[fst (ops ! i), ?fi]])
                ((cw c2)\<lparr>calls := calls (cw c2) @ [AppendRow h [fst (ops ! i), ?fi]]\<rparr>))
               \<lparr>data_cache := Map.empty\<rparr>, ph = (ph c2)[i := Done]\<rparr>"
  have s3: "sched_step sid ops (ECommit i) c2 = Some c3"
    using sched_commit_append_eq [OF conc_inv_basic(1) [OF inv2], where t = t and i = i] lk ij len
    by (simp add: c1_def c2_def c3_def)
  have inv3: "conc_inv sid ops h c3" by (rule sched_step_inv [OF s3 inv2])
  have lk3: "lookup_ws (cw c3) h = Some (t\<lparr>tab_grid := ?g @ [[k, ?fi]]\<rparr>)"
    using lk k(1) by (simp add: c1_def c2_def c3_def lookup_ws_modify_grid)
  define c4 where "c4 = \<lparr>cw = (modify_grid h (\<lambda>g. g @ [[fst (ops ! j), ?fj]])
                ((cw c3)\<lparr>calls := calls (cw c3) @ [AppendRow h [fst (ops ! j), ?fj]]\<rparr>))
               \<lparr>data_cache := Map.empty\<rparr>, ph = (ph c3)[j := Done]\<rparr>"
  have s4: "sched_step sid ops (ECommit j) c3 = Some c4"
    using sched_commit_append_eq [OF conc_inv_basic(1) [OF inv3] lk3, where i = j] ij len
    by (simp add: c1_def c2_def c3_def c4_def)
  have "run_sched sid ops [EPlan i, EPlan j, ECommit i, ECommit j] c = Some c4"
    by (simp add: s1 s2 s3 s4)
  moreover have "lookup_ws (cw c4) h = Some (t\<lparr>tab_grid := ?g @ [[k, ?fi], [k, ?fj]]\<rparr>)"
    using lk3 k(2) by (simp add: c4_def lookup_ws_modify_grid)
  moreover have "status_view (?g @ [[k, ?fi], [k, ?fj]]) k = Some (snd (ops ! j))"
    using status_view_append [of "?g @ [[k, ?fi]]" k ?fj] status_wf_nonempty [OF wf] by simp
  moreover have "ph c4 = (ph c)[i := Done, j := Done]"
    using ij(3) by (simp add: c1_def c2_def c3_def c4_def list_update_swap [of i j])
  ultimately show ?thesis by blast
qed

text \<open>
  C13. With three sessions the last write can be the lost one, for any sheet without
  the key and any configuration satisfying the invariant.  Sessions \<open>i\<close> and \<open>j\<close> both
  see the key absent; \<open>j\<close> appends; \<open>l\<close> then plans an update of that row; \<open>i\<close>'s
  append lands after it; \<open>l\<close> commits last, into the row that \<open>i\<close>'s append now
  shadows.  The key reads \<open>i\<close>'s flag although \<open>l\<close>'s write was the last.
\<close>

theorem lost_update_three_sessions:
  assumes inv: "conc_inv sid ops h c" and lk: "lookup_ws (cw c) h = Some t"
    and ijl: "i < length ops" "j < length ops" "l < length ops" "i \<noteq> j" "i \<noteq> l" "j \<noteq> l"
      "ph c ! i = Idle" "ph c ! j = Idle" "ph c ! l = Idle"
    and k: "fst (ops ! i) = k" "fst (ops ! j) = k" "fst (ops ! l) = k" "status_view (tab_grid t) k = None"
  shows "\<exists>c'. run_sched sid ops [EPlan i, EPlan j, ECommit j, EPlan l, ECommit i, ECommit l] c = Some c'
    \<and> lookup_ws (cw c') h = Some (t\<lparr>tab_grid := tab_grid t @ [[k, user_entered (flag_str (snd (ops ! l)))],
                                                         [k, flag_str (snd (ops ! i))]]\<rparr>)
    \<and> status_view (tab_grid t @ [[k, user_entered (flag_str (snd (ops ! l)))], [k, flag_str (snd (ops ! i))]]) k
        = Some (snd (ops ! i))
    \<and> ph c' = (ph c)[i := Done, j := Done, l := Done]"
proof -
  let ?g = "tab_grid t"
  let ?fi = "flag_str (snd (ops ! i))"
  let ?fj = "flag_str (snd (ops ! j))"
  let ?v = "user_entered (flag_str (snd (ops ! l)))"
  let ?J = "Suc (length ?g)"
  have len: "length (ph c) = length ops" by (rule conc_inv_basic(2) [OF inv])
  have wf: "status_wf ?g" using conc_inv_basic(3) [OF inv] lk by auto
  have ne: "?g \<noteq> []" by (rule status_wf_nonempty [OF wf])
  have lm: "last_match 2 (tl ?g) k = None" using k(4) by (simp add: last_match_None status_view_None)
  define c1 where "c1 = \<lparr>cw = (cw c)\<lparr>calls := calls (cw c) @ [GetAllValues h]\<rparr>, ph = (ph c)[i := Planned (h, None)]\<rparr>"
  have s1: "sched_step sid ops (EPlan i) c = Some c1"
    using sched_plan_eq [OF inv lk, where i = i] ijl len k(1) lm by (simp add: c1_def)
  have inv1: "conc_inv sid ops h c1" by (rule sched_step_inv [OF s1 inv])
  define c2 where "c2 = \<lparr>cw = (cw c1)\<lparr>calls := calls (cw c1) @ [GetAllValues h]\<rparr>, ph = (ph c1)[j := Planned (h, None)]\<rparr>"
  have s2: "sched_step sid ops (EPlan j) c1 = Some c2"
    using sched_plan_eq [OF inv1, where t = t and i = j] lk ijl len k(2) lm by (simp add: c1_def c2_def)
  have inv2: "conc_inv sid ops h c2" by (rule sched_step_inv [OF s2 inv1])
  define c3 where "c3 = \<lparr>cw = (modify_grid h (\<lambda>g. g @ [[fst (ops ! j), ?fj]])
                ((cw c2)\<lparr>calls := calls (cw c2) @ [AppendRow h [fst (ops ! j), ?fj]]\<rparr>))
               \<lparr>data_cache := Map.empty\<rparr>, ph = (ph c2)[j := Done]\<rparr>"
  have s3: "sched_step sid ops (ECommit j) c2 = Some c3"
    using sched_commit_append_eq [OF conc_inv_basic(1) [OF inv2], where t = t and i = j] lk ijl len
    by (simp add: c1_def c2_def c3_def)
  have inv3: "conc_inv sid ops h c3" by (rule sched_step_inv [OF s3 inv2])
  have lk3: "lookup_ws (cw c3) h = Some (t\<lparr>tab_grid := ?g @ [[k, ?fj]]\<rparr>)"
    using lk k(2) by (simp add: c1_def c2_def c3_def lookup_ws_modify_grid)
  have lm3: "last_match 2 (tl (?g @ [[k, ?fj]])) k = Some ?J"
    using ne by (simp add: last_match_snoc)
  define c4 where "c4 = \<lparr>cw = (cw c3)\<lparr>calls := calls (cw c3) @ [GetAllValues h]\<rparr>, ph = (ph c3)[l := Planned (h, Some ?J)]\<rparr>"
  have s4: "sched_step sid ops (EPlan l) c3 = Some c4"
    using sched_plan_eq [OF inv3 lk3, where i = l] ijl len k(3) lm3 by (simp add: c1_def c2_def c3_def c4_def)
  have inv4: "conc_inv sid ops h c4" by (rule sched_step_inv [OF s4 inv3])
  have lk4: "lookup_ws (cw c4) h = Some (t\<lparr>tab_grid := ?g @ [[k, ?fj]]\<rparr>)"
    using lk3 by (simp add: c4_def)
  define c5 where "c5 = \<lparr>cw = (modify_grid h (\<lambda>g. g @ [[fst (ops ! i), ?fi]])
                ((cw c4)\<lparr>calls := calls (cw c4) @ [AppendRow h [fst (ops ! i), ?fi]]\<rparr>))
               \<lparr>data_cache := Map.empty\<rparr>, ph = (ph c4)[i := Done]\<rparr>"
  have s5: "sched_step sid ops (ECommit i) c4 = Some c5"
    using sched_commit_append_eq [OF conc_inv_basic(1) [OF inv4] lk4, where i = i] ijl len
    by (simp add: c1_def c2_def c3_def c4_def c5_def)
  have inv5: "conc_inv sid ops h c5" by (rule sched_step_inv [OF s5 inv4])
  have lk5: "lookup_ws (cw c5) h = Some (t\<lparr>tab_grid := ?g @ [[k, ?fj], [k, ?fi]]\<rparr>)"
    using lk4 k(1) by (simp add: c5_def lookup_ws_modify_grid)
  define c6 where "c6 = \<lparr>cw = (modify_grid h (\<lambda>g. set_cell g (?J - 1) 1 (user_entered (flag_str (snd (ops ! l)))))
                ((cw c5)\<lparr>calls := calls (cw c5) @ [UpdateCell h ?J 2 (flag_str (snd (ops ! l)))]\<rparr>))
               \<lparr>data_cache := Map.empty\<rparr>, ph = (ph c5)[l := Done]\<rparr>"
  have J2: "2 \<le> ?J" using ne by (cases ?g) auto
  have s6: "sched_step sid ops (ECommit l) c5 = Some c6"
    using sched_commit_update_eq [OF conc_inv_basic(1) [OF inv5] lk5 _ _ J2, where i = l and sid = sid and ops = ops] ijl len
    by (simp add: c1_def c2_def c3_def c4_def c5_def c6_def)
  have cell: "set_cell (?g @ [[k, ?fj], [k, ?fi]]) (?J - 1) 1 ?v = ?g @ [[k, ?v], [k, ?fi]]"
    by (simp add: set_cell_in_range nth_append list_update_append)
  have "run_sched sid ops [EPlan i, EPlan j, ECommit j, EPlan l, ECommit i, ECommit l] c = Some c6"
    by (simp add: s1 s2 s3 s4 s5 s6)
  moreover have "lookup_ws (cw c6) h = Some (t\<lparr>tab_grid := ?g @ [[k, ?v], [k, ?fi]]\<rparr>)"
    using lk5 cell by (simp add: c6_def lookup_ws_modify_grid)
  moreover have "status_view (?g @ [[k, ?v], [k, ?fi]]) k = Some (snd (ops ! i))"
    using status_view_append [of "?g @ [[k, ?v]]" k ?fi] ne by simp
  moreover have "ph c6 = (ph c)[i := Done, j := Done, l := Done]"
    using ijl(4-6) by (simp add: c1_def c2_def c3_def c4_def c5_def c6_def list_update_swap [of i j]
        list_update_swap [of i l] list_update_swap [of j l])
  ultimately show ?thesis by blast
qed

text \<open>
  Termination: there is no infinite interleaving.  Every step finishes one phase of
  one session, so the number of phases left decreases.
\<close>

lemma cstep_terminates: "wf {(c', c). cstep sid ops c c'}"
  by (rule wf_subset [OF wf_measure [of conc_rank]]) (auto dest: cstep_rank)

text \<open>
  No session is left behind: from a configuration satisfying the invariant, every
  interleaving that cannot be extended ends with every session's upsert done (none
  failed, none pending).  With the termination of the relation, every run of the
  sessions ends so.
\<close>

lemma conc_completes:
  assumes "conc_inv sid ops h c" "(cstep sid ops)\<^sup>*\<^sup>* c c'" "\<not> (\<exists>c''. cstep sid ops c' c'')"
  shows "\<forall>q \<in> set (ph c'). q = Done"
proof
  fix q assume q: "q \<in> set (ph c')"
  have "conc_inv sid ops h c'"
    using assms(2,1) by (induction rule: rtranclp_induct) (auto intro: cstep_conc_inv)
  then have "q \<in> {Idle, Done} \<union> range Planned" using q by (rule conc_inv_phases)
  moreover from q obtain i where "i < length (ph c')" "ph c' ! i = q" by (auto simp: in_set_conv_nth)
  ultimately show "q = Done" using cstep_progress [of i c'] assms(3) by auto
qed

section \<open>Witnesses\<close>

lemma conc_inv_example:
  "conc_inv ''s1'' ops example_ws \<lparr>cw = (status_world g)\<lparr>calls := cs\<rparr>, ph = qs\<rparr> \<longleftrightarrow>
     length qs = length ops \<and> status_wf g \<and> list_all2 (\<lambda>q op. plan_ok example_ws g (fst op) q) qs ops"
  by (simp add: conc_inv_def status_world_def example_defs status_sheet_def lookup_ws_def find_tab_def)

theorem conc_inv_reachable_witness:
  "conc_inv ''s1'' [(''http://a'', True), (''http://a'', False)] example_ws
     \<lparr>cw = (status_world [[''ItemKey'', ''Read''], [''http://a'', ''true''], [''http://a'', ''false'']])
              \<lparr>calls := [GetAllValues example_ws, GetAllValues example_ws,
                         AppendRow example_ws [''http://a'', ''true''], AppendRow example_ws [''http://a'', ''false'']]\<rparr>,
      ph = [Done, Done]\<rparr>"
proof -
  have run: "run_sched ''s1'' [(''http://a'', True), (''http://a'', False)]
     [EPlan 0, EPlan 1, ECommit 0, ECommit 1]
     \<lparr>cw = (status_world [status_header])\<lparr>calls := []\<rparr>, ph = [Idle, Idle]\<rparr>
   = Some \<lparr>cw = (status_world [[''ItemKey'', ''Read''], [''http://a'', ''true''], [''http://a'', ''false'']])
              \<lparr>calls := [GetAllValues example_ws, GetAllValues example_ws,
                         AppendRow example_ws [''http://a'', ''true''], AppendRow example_ws [''http://a'', ''false'']]\<rparr>,
           ph = [Done, Done]\<rparr>"
    by (simp add: sched_step_def plan_status_world0 plan_status_world commit_append_status_world
        status_wf_def status_header_def last_match_def flag_str_def status_world_calls_Nil)
  have inv: "conc_inv ''s1'' [(''http://a'', True), (''http://a'', False)] example_ws
     \<lparr>cw = (status_world [status_header])\<lparr>calls := []\<rparr>, ph = [Idle, Idle]\<rparr>"
    by (simp add: conc_inv_example status_wf_def)
  show ?thesis by (rule conc_inv_reachable [OF inv run_sched_steps [OF run]])
qed

theorem commit_view_witness:
  "fst (upsert_commit ''http://a'' False (example_ws, Some 2)
          ((status_world [status_header, [''http://a'', ''true'']])\<lparr>calls := []\<rparr>)) = Inr ()
   \<and> (\<exists>t'. lookup_ws (snd (upsert_commit ''http://a'' False (example_ws, Some 2)
                ((status_world [status_header, [''http://a'', ''true'']])\<lparr>calls := []\<rparr>))) example_ws = Some t'
        \<and> status_view (tab_grid t') = [''http://a'' \<mapsto> False])"
proof -
  let ?c = "\<lparr>cw = (status_world [status_header, [''http://a'', ''true'']])\<lparr>calls := []\<rparr>,
             ph = [Planned (example_ws, Some 2)]\<rparr>"
  have inv: "conc_inv ''s1'' [(''http://a'', False)] example_ws ?c"
    by (simp add: conc_inv_example status_wf_def plan_ok_def status_header_def)
  have lk: "lookup_ws (cw ?c) example_ws = Some (example_tab\<lparr>tab_grid := [status_header, [''http://a'', ''true'']]\<rparr>)"
    by (simp add: status_world_def example_defs lookup_ws_def find_tab_def)
  from commit_view [OF inv _ _ lk surjective_pairing, of 0] show ?thesis
    by (simp add: last_match_def status_header_def status_view_def parse_read_def lower_def lower_char_def)
qed


lemma status_world_start:
  "conc_inv ''s1'' ops example_ws \<lparr>cw = status_world [status_header], ph = replicate (length ops) Idle\<rparr>"
  "lookup_ws (cw \<lparr>cw = status_world g, ph = qs\<rparr>) example_ws = Some (example_tab\<lparr>tab_grid := g\<rparr>)"
  "status_view (tab_grid (example_tab\<lparr>tab_grid := [status_header]\<rparr>)) k = None"
proof -
  show "conc_inv ''s1'' ops example_ws \<lparr>cw = status_world [status_header], ph = replicate (length ops) Idle\<rparr>"
    using conc_inv_example [where ops = ops and g = "[status_header]" and cs = "[]"
        and qs = "replicate (length ops) Idle"]
    by (simp add: status_world_calls_Nil status_wf_def status_header_def list_all2_conv_all_nth)
qed (simp_all add: status_world_def example_defs lookup_ws_def find_tab_def status_view_def status_header_def)

theorem race_duplicate_rows_witness:
  "\<exists>c'. run_sched ''s1'' [(''http://a'', True), (''http://a'', False)] [EPlan 0, EPlan 1, ECommit 0, ECommit 1]
         \<lparr>cw = status_world [status_header], ph = [Idle, Idle]\<rparr> = Some c'
     \<and> status_view [[''ItemKey'', ''Read''], [''http://a'', ''true''], [''http://a'', ''false'']] ''http://a'' = Some False"
proof -
  let ?ops = "[(''http://a'', True), (''http://a'', False)]"
  let ?c = "\<lparr>cw = status_world [status_header], ph = [Idle, Idle]\<rparr>"
  have inv: "conc_inv ''s1'' ?ops example_ws ?c" using status_world_start(1) [of ?ops] by simp
  have h: "0 < length ?ops" "1 < length ?ops" "(0::nat) \<noteq> 1" "ph ?c ! 0 = Idle" "ph ?c ! 1 = Idle"
    "fst (?ops ! 0) = ''http://a''" "fst (?ops ! 1) = ''http://a''" by simp_all
  from race_duplicate_rows [OF inv status_world_start(2) h status_world_start(3)]
  obtain c' where "run_sched ''s1'' ?ops [EPlan 0, EPlan 1, ECommit 0, ECommit 1] ?c = Some c'"
    "status_view ([status_header] @ [[''http://a'', flag_str True], [''http://a'', flag_str False]]) ''http://a''
       = Some False"
    by auto
  then show ?thesis by (auto simp: status_header_def flag_str_def)
qed

theorem lost_update_three_sessions_witness:
  "\<exists>c'. run_sched ''s1'' [(''http://a'', False), (''http://a'', True), (''http://a'', True)]
         [EPlan 0, EPlan 1, ECommit 1, EPlan 2, ECommit 0, ECommit 2]
         \<lparr>cw = status_world [status_header], ph = [Idle, Idle, Idle]\<rparr> = Some c'
     \<and> status_view [[''ItemKey'', ''Read''], [''http://a'', ''TRUE''], [''http://a'', ''false'']] ''http://a'' = Some False"
proof -
  let ?ops = "[(''http://a'', False), (''http://a'', True), (''http://a'', True)]"
  let ?c = "\<lparr>cw = status_world [status_header], ph = [Idle, Idle, Idle]\<rparr>"
  have inv: "conc_inv ''s1'' ?ops example_ws ?c" using status_world_start(1) [of ?ops] by simp
  have h: "0 < length ?ops" "1 < length ?ops" "2 < length ?ops" "(0::nat) \<noteq> 1" "(0::nat) \<noteq> 2" "(1::nat) \<noteq> 2"
    "ph ?c ! 0 = Idle" "ph ?c ! 1 = Idle" "ph ?c ! 2 = Idle"
    "fst (?ops ! 0) = ''http://a''" "fst (?ops ! 1) = ''http://a''" "fst (?ops ! 2) = ''http://a''" by simp_all
  from lost_update_three_sessions [OF inv status_world_start(2) h status_world_start(3)]
  obtain c' where "run_sched ''s1'' ?ops [EPlan 0, EPlan 1, ECommit 1, EPlan 2, ECommit 0, ECommit 2] ?c = Some c'"
    "status_view ([status_header] @ [[''http://a'', user_entered (flag_str True)], [''http://a'', flag_str False]])
       ''http://a'' = Some False"
    by auto
  then show ?thesis by (auto simp: status_header_def flag_str_def user_entered_def lower_def lower_char_def)
qed

end
