(* ===== verification/Spec2Isabelle.thy ===== *)
theory Spec2Isabelle
  imports Page Concurrency
begin

text \<open>
  \<^bold>\<open>A verification model of Medium Digest-Web (Google Sheets edition).\<close>

  The program has two parts.  \<^verbatim>\<open>src/gsheets_io.py\<close> is the data layer: it
  authorises a gspread client, finds or creates worksheets, retries remote calls under
  rate limits, caches sheet reads for 60 s, and upserts one read flag per article into
  the \<open>ReadStatus\<close> sheet.  \<^verbatim>\<open>src/app.py\<close> is a Streamlit page that loads the
  \<open>Articles\<close> sheet, merges the read flags, filters, searches and paginates the
  articles, and calls the upsert when a checkbox changes.  Every browser session runs
  the page script in its own thread of one process, so the remote sheet and the
  process caches are shared.

  \<^medskip>\<^bold>\<open>How the theories model the code.\<close>
  \<^item> \<open>Prelude\<close>: the exceptions (\<open>exc\<close>), the state-and-exception result type
    \<open>('a, 's) st\<close> with \<open>rreturn\<close>, \<open>rraise\<close> and \<open>rbind\<close> in which every operation
    is written, the frame predicate \<open>keeps\<close> with its rules \<open>frame_rules\<close>, the
    sequencing \<open>seq_st\<close>, and the Python string operations the code uses
    (\<open>starts_with\<close>, \<open>contains\<close>, \<open>replace_all\<close> for \<open>str.replace\<close>, \<open>lower\<close>).
  \<^item> \<open>Remote\<close>: the environment, modelled from gspread's documented behaviour, not from
    this repository.  The record \<open>world\<close> holds the configuration (secrets,
    environment, files), the remote spreadsheets \<open>book\<close>, a fault schedule
    \<open>faults\<close> consumed by each remote call (\<open>Some e\<close> makes the call fail with
    \<open>e\<close>), the log of remote calls \<open>calls\<close>, the clock and the sleeps in
    milliseconds, and the four Streamlit caches (\<open>client_cache\<close>,
    \<open>sheet_cache\<close>, \<open>wsmap_cache\<close> of \<open>@st.cache_resource\<close>, \<open>data_cache\<close> of
    \<open>@st.cache_data\<close>).  \<open>gs_get_all_values\<close> returns \<open>sheet_values\<close>: the API
    trims trailing empty cells and rows and gspread pads the rest to a rectangle;
    \<open>gs_update_cell\<close> sends \<open>USER_ENTERED\<close> values (\<open>true\<close> is stored as
    \<open>TRUE\<close>), \<open>gs_append_row\<close> raw ones.
  \<^item> \<open>Retry\<close>: \<open>_need_retry\<close> as \<open>need_retry\<close>, \<open>with_retry\<close> as the loop
    \<open>retry_loop\<close> run with fuel \<open>max_attempts = 5\<close>, which is the bound of
    \<open>range(5)\<close> itself, so the fuel never cuts a run short; the \<open>safe_*\<close> wrappers.
  \<^item> \<open>Auth\<close>: \<open>get_client\<close> with its private-key normalisation \<open>normalize_svc\<close>.
  \<^item> \<open>Registry\<close>: the \<open>@st.cache_resource\<close> combinator \<open>memo\<close>,
    \<open>open_spreadsheet\<close>, \<open>list_worksheets_map\<close>, \<open>get_or_create_worksheet\<close>.
  \<^item> \<open>ReadCache\<close>: \<open>read_sheet_to_df\<close> (TTL \<open>ttl_ms = 60000\<close>; an entry is fresh while
    \<open>clock < stored + ttl\<close>), \<open>frame_of_values\<close>, \<open>write_df_to_sheet\<close>.
  \<^item> \<open>Upsert\<close>: \<open>upsert_read_status\<close> with its index \<open>build_index\<close>, the reference
    index \<open>last_match\<close>, and the sheet invariant \<open>status_wf\<close>.
  \<^item> \<open>Dates\<close>: \<open>pd.to_datetime(errors='coerce')\<close> as \<open>to_datetime\<close> on ISO dates
    \<open>YYYY-MM-DD\<close> (calendar validity, leap years, the Timestamp range 1677-09-22 to
    2262-04-11; anything else is \<open>NaT\<close>, \<open>None\<close>), \<open>strftime('%Y-%m-%d')\<close> as
    \<open>date_str\<close>, and \<open>sort_values("Date", ascending=False)\<close> as \<open>sort_values_desc\<close>,
    written as pandas' \<open>nargsort\<close> writes it (reverse, argsort, reverse; \<open>NaT\<close> last
    in input order).  numpy's \<open>argsort(kind='quicksort')\<close> is not stable and its order
    among equal dates is an implementation detail, so the argsort is a parameter
    constrained only by what numpy promises (\<open>argsort_ok\<close>: a permutation of the
    indices that orders the keys); \<open>stable_argsort\<close> is one such function.
  \<^item> \<open>StableKey\<close>: \<open>stable_key\<close> (\<^verbatim>\<open>src/app.py\<close>, lines 18--19), the widget
    key \<open>prefix_\<close> followed by \<open>hashlib.md5(s.encode('utf-8')).hexdigest()\<close>.
    \<open>utf8_encode\<close> is the UTF-8 encoding of code points below 256 (one or two bytes);
    \<open>md5\<close> is RFC 1321 over \<open>32 word\<close> values: the padding \<open>md5_pad\<close>, the 64-byte
    blocks \<open>chunks\<close>, the round functions \<open>md5_F\<close>, the message schedule \<open>md5_g\<close>,
    the shifts and constants \<open>md5_shift\<close> and \<open>md5_K\<close>, one step \<open>md5_step\<close>, one
    block \<open>md5_block\<close>, and the little-endian conversions \<open>le_word\<close>, \<open>le_bytes\<close>,
    \<open>word_bytes\<close>; \<open>hexdigest\<close> prints lowercase hexadecimal.  The model computes
    RFC 1321's test digests by \<open>code_simp\<close>.
  \<^item> \<open>App\<close>: the constants of the page, \<open>load_articles\<close> with \<open>row_date\<close> (the Date
    conversion), \<open>parse_read\<close> and \<open>status_map\<close>, \<open>on_toggle\<close>, and the abstract store
    \<open>status_view\<close>.
  \<^item> \<open>Page\<close>: the rest of the page script: \<open>display_paginated\<close>, the counts and status
    labels, \<open>category_group\<close> with select-all, \<open>reset_page\<close>, the filters,
    the search \<open>search_filter\<close>, \<open>main_view\<close>, the page over the session record
    \<open>ui_state\<close>, \<open>render_row\<close>, what one
    displayed row shows (\<open>row_view\<close>: dimming, title, subtitle, author, date, links, the
    checkbox's value, its widget key \<open>chk_key\<close> and the key its callback upserts), the
    loop \<open>render_rows\<close> that raises Streamlit's duplicate-key error
    (\<open>DuplicateWidgetKey\<close>) on the first row whose widget key an earlier row of the
    page created, and \<open>app_run\<close>, one run of the
    whole script (\<open>load_articles\<close>, \<open>st.stop()\<close> on an empty sheet, \<open>main_view\<close>, then
    the rows rendered).  The page takes the two library routines whose behaviour its
    documentation leaves open as a record \<open>pylib\<close>: \<open>re_compile_ic\<close>, Python's
    \<open>re.compile(term, re.IGNORECASE)\<close> through pandas' \<open>str.contains(term,
    case=False)\<close> (its default \<open>regex=True\<close>), giving the search test or \<open>re.error\<close>
    (\<open>ReError\<close>); and \<open>np_argsort\<close>, numpy's argsort of the dates.  The page's
    theorems hold for every engine, so for the Python and numpy versions the program
    runs on; \<open>example_lib\<close> is one instance, for the witnesses.
  \<^item> \<open>Concurrency\<close>: the upsert split into its read phase \<open>upsert_plan\<close> and write
    phase \<open>upsert_commit\<close>, the interleaving relation \<open>cstep\<close> of many sessions, its
    invariant \<open>conc_inv\<close>, the measure \<open>conc_rank\<close> (phases left), and an executable
    scheduler \<open>run_sched\<close>.
  This theory adds a page world with both sheets (\<open>page_world\<close>), the end-to-end
  theorem that ties the page to the data layer, and the scenario of the specification.

  \<^medskip>\<^bold>\<open>What the lemmas show.\<close>
  \<^item> Upsert and App: the upsert refines the abstract update of the key-to-flag map on
    a well-formed sheet (\<open>upsert_refines_status_view\<close>), a read after it sees the new
    flag (\<open>upsert_read_your_write\<close>), each branch does one read and one write
    (\<open>upsert_appends_absent\<close>, \<open>upsert_updates_present\<close>), the index agrees with the
    last-occurrence reference and never raises (\<open>index_last_occurrence\<close>), the sheet
    invariant is preserved (\<open>upsert_preserves_status_wf\<close>), the cache is cleared only
    after a successful write (\<open>upsert_cache_invalidation\<close>).
  \<^item> Concurrency: the invariant holds in every interleaving (\<open>conc_inv_reachable\<close>);
    a commit either reaches the store or, when a later duplicate row shadows it, is
    lost (\<open>commit_view\<close>); from any configuration satisfying the invariant, two
    sessions that both read before either writes a key the sheet lacks leave two rows
    for it (\<open>race_duplicate_rows\<close>), and three sessions can lose the last write
    (\<open>lost_update_three_sessions\<close>).  Supporting lemmas: the split is faithful
    (\<open>upsert_split\<close>), no interleaving is infinite (\<open>cstep_terminates\<close>), and an
    interleaving that cannot be extended has finished every session
    (\<open>conc_completes\<close>).
  \<^item> Page and data layer together: toggling a checkbox and reloading the page shows the
    toggled article with the new flag and every other article unchanged
    (\<open>toggle_then_reload\<close>); after a box is ticked, the next run of the script under
    "unread only" renders rows none of which is that article, is ticked, or is marked
    read in the sheet (\<open>toggle_hides_from_unread\<close>), provided the sheet's URLs have
    pairwise distinct widget keys and the search box is empty or holds a term the
    regular-expression engine compiles.
  \<^item> Retry: the number of attempts and the backoff sleeps 1, 2, 4, 8, 16 s, fatal
    errors propagated at once, recovery after transient ones, exhaustion.
  \<^item> Auth, Registry, Read Cache: memoisation, the missing-credential error, creation
    of worksheets and the stale worksheet map, cache miss, and the 60 s time-to-live
    of a cached frame (\<open>read_cache_ttl\<close>); a frame written by
    \<open>write_df_to_sheet\<close> reads back unchanged (\<open>write_read_roundtrip\<close>, for the
    frames \<open>frame_storable\<close> describes: the API drops trailing empty cells and rows),
    but a cached frame younger than 60 s survives the write (\<open>write_keeps_stale_cache\<close>).
  \<^item> Page: pages partition the list, the page stays in range, the counts are exact,
    select-all, the reset of the page, and the reset caused by toggling a flag; one run
    shows at most eight loaded articles, latest first, each passing the status filter
    and matched by the search pattern (\<open>main_view_shown\<close>); a search term the
    regular-expression engine rejects makes the page fail with \<open>re.error\<close>, raised
    before the Subtitle column is read (\<open>main_view_search_error\<close>).
  \<^item> StableKey and the rows: the MD5 of the model gives RFC 1321's digests
    (\<open>md5_test_vectors\<close>, a validation of the model); a key is the prefix, an underscore and 32 lowercase hex
    digits, and two keys agree exactly when the MD5 digests of the UTF-8 encodings do,
    the encoding being injective (\<open>stable_key_spec\<close>); the padding is a whole number
    of blocks ending in the bit length (\<open>md5_pad_bounds\<close>).  A page renders exactly
    when its rows' widget keys are distinct, and otherwise fails with the duplicate-key
    error (\<open>render_rows_duplicate_key\<close>): two rows of the Articles sheet with the same
    URL on one page make the script fail, since the key depends on the URL only.
  \<^item> Dates: for every argsort keeping numpy's promise the sort is a permutation,
    ordered by date with \<open>NaT\<close> last and in input order, and the sequence of dates it
    produces is the same for every such argsort (\<open>sort_values_desc_spec\<close>); on the
    sheet's ISO dates \<open>to_datetime\<close> and \<open>date_str\<close> are inverse
    (\<open>to_datetime_roundtrip\<close>, a property of the stand-in).

  \<^medskip>\<^bold>\<open>Not modelled.\<close>  The network and the authorisation of credentials
  (a credential is a value; \<open>Credentials.from_service_account_*\<close> never fails here);
  time passing other than through the retry sleeps and the debounce; the output calls
  (\<open>st.markdown\<close> with its HTML and CSS, \<open>st.info\<close>, \<open>st.warning\<close>, the page title and
  config) beyond the values each row displays; UTF-8 encoding of characters beyond
  code point 255 (Isabelle's \<open>char\<close> has 256 values); date spellings other than
  \<open>YYYY-MM-DD\<close> (pandas may parse some of them, the model reads them as \<open>NaT\<close>) and
  the time of day; Python's regular-expression engine and numpy's quicksort, which are
  parameters of the page (\<open>pylib\<close>) constrained only as their documentation
  constrains them; Streamlit's widget internals and \<open>st.rerun\<close>; the size limits of a
  worksheet (2000 rows, 26 columns are recorded, not enforced).
\<close>

section \<open>A page with both sheets\<close>

text \<open>The spreadsheet of the page, \<open>SHEET_ID\<close>, holding an \<open>Articles\<close> sheet with one
  article and a \<open>ReadStatus\<close> sheet with its header, both known to the Registry.\<close>

definition articles_ws :: ws where
  "articles_ws = \<lparr>ws_sheet = SHEET_ID, ws_title = DATA_SHEET_NAME\<rparr>"

definition status_ws :: ws where
  "status_ws = \<lparr>ws_sheet = SHEET_ID, ws_title = READ_SHEET_NAME\<rparr>"

definition articles_tab :: tab where
  "articles_tab = \<lparr>tab_title = DATA_SHEET_NAME, tab_rows = 2000, tab_cols = 26,
     tab_grid = [REQUIRED_COLS, [''2025-01-02'', ''Ann'', ''On RAG'', ''Notes'', ''http://a'', ''AI Algorithm'']]\<rparr>"

definition page_world :: world where
  "page_world = example_world\<lparr>book := [SHEET_ID \<mapsto> [articles_tab, example_tab]],
     wsmap_cache := [SHEET_ID \<mapsto> [DATA_SHEET_NAME \<mapsto> articles_ws, READ_SHEET_NAME \<mapsto> status_ws]]\<rparr>"

section \<open>The scenario of the specification\<close>

text \<open>
  The concrete scenario of the specification, evaluated: from a status sheet holding only its
  header, the upserts (a, true), (b, false), (a, false) append two rows and then update
  the first in place.  The row count stays two and the abstract map ends as a and b both
  false; the stored cell of a reads \<open>FALSE\<close>, because \<open>update_cell\<close> sends
  \<open>USER_ENTERED\<close> values while \<open>append_row\<close> sends raw ones.
\<close>

lemma spec_scenario:
  "seq_st [upsert_read_status ''s1'' ''http://a'' True, upsert_read_status ''s1'' ''http://b'' False,
           upsert_read_status ''s1'' ''http://a'' False] (status_world [status_header])
   = (Inr (), (status_world [[''ItemKey'', ''Read''], [''http://a'', ''FALSE''], [''http://b'', ''false'']])
        \<lparr>calls := [GetAllValues example_ws, AppendRow example_ws [''http://a'', ''true''],
                   GetAllValues example_ws, AppendRow example_ws [''http://b'', ''false''],
                   GetAllValues example_ws, UpdateCell example_ws 2 2 ''false'']\<rparr>)
   \<and> status_view [[''ItemKey'', ''Read''], [''http://a'', ''FALSE''], [''http://b'', ''false'']]
       = [''http://a'' \<mapsto> False, ''http://b'' \<mapsto> False]"
proof -
  let ?g0 = "[[''ItemKey'', ''Read'']]"
  let ?g1 = "[[''ItemKey'', ''Read''], [''http://a'', ''true'']]"
  let ?g2 = "[[''ItemKey'', ''Read''], [''http://a'', ''true''], [''http://b'', ''false'']]"
  let ?c1 = "[GetAllValues example_ws, AppendRow example_ws [''http://a'', ''true'']]"
  let ?c2 = "[GetAllValues example_ws, AppendRow example_ws [''http://a'', ''true''],
             GetAllValues example_ws, AppendRow example_ws [''http://b'', ''false'']]"
  have w0: "status_world [status_header] = (status_world ?g0)\<lparr>calls := []\<rparr>"
    by (simp add: status_world_def example_defs status_header_def)
  have a1: "''http://a'' \<notin> hd ` set (status_rows (sheet_values ?g0))"
    by (simp add: status_rows_def sheet_values_simps)
  have a2: "''http://b'' \<notin> hd ` set (status_rows (sheet_values ?g1))"
    by (simp add: status_rows_def sheet_values_simps)
  have a3: "last_match 2 (status_rows (sheet_values ?g2)) ''http://a'' = Some 2"
    by (simp add: last_match_def status_rows_def sheet_values_simps upt_rec)
  have s1: "upsert_read_status ''s1'' ''http://a'' True ((status_world ?g0)\<lparr>calls := []\<rparr>)
      = (Inr (), (status_world ?g1)\<lparr>calls := ?c1\<rparr>)"
    using status_world_upsert_absent [OF a1, of True "[]"] by (simp add: flag_str_def)
  have s2: "upsert_read_status ''s1'' ''http://b'' False ((status_world ?g1)\<lparr>calls := ?c1\<rparr>)
      = (Inr (), (status_world ?g2)\<lparr>calls := ?c2\<rparr>)"
    using status_world_upsert_absent [OF a2, of False ?c1] by (simp add: flag_str_def)
  have s3: "upsert_read_status ''s1'' ''http://a'' False ((status_world ?g2)\<lparr>calls := ?c2\<rparr>)
      = (Inr (), (status_world [[''ItemKey'', ''Read''], [''http://a'', ''FALSE''], [''http://b'', ''false'']])
          \<lparr>calls := ?c2 @ [GetAllValues example_ws, UpdateCell example_ws 2 2 ''false'']\<rparr>)"
    using status_world_upsert_present [OF a3, of False ?c2]
    by (simp add: flag_str_def user_entered_def set_cell_def lower_def lower_char_def)
  have v: "status_view [[''ItemKey'', ''Read''], [''http://a'', ''FALSE''], [''http://b'', ''false'']]
       = [''http://a'' \<mapsto> False, ''http://b'' \<mapsto> False]"
    by (simp add: status_view_def parse_read_def lower_def lower_char_def)
  show ?thesis
    using v by (simp add: w0 s1 s2 s3)
qed

section \<open>Toggling a checkbox and reloading the page\<close>

lemma articles_frame:
  "frame_of_values (sheet_values (tab_grid articles_tab)) =
   \<lparr>frame_cols = REQUIRED_COLS,
    frame_rows = [[''2025-01-02'', ''Ann'', ''On RAG'', ''Notes'', ''http://a'', ''AI Algorithm'']]\<rparr>"
proof -
  have "sheet_values (tab_grid articles_tab) = tab_grid articles_tab"
    unfolding articles_tab_def REQUIRED_COLS_def by (rule sheet_values_rect) (simp_all add: trim_row_def)
  then show ?thesis by (simp add: articles_tab_def frame_of_values_Cons)
qed

lemma page_world_ready:
  "status_ready page_world SHEET_ID status_ws example_tab" "status_wf (tab_grid example_tab)"
  "faults page_world = []"
  "wsmap_cache page_world SHEET_ID = Some [DATA_SHEET_NAME \<mapsto> articles_ws, READ_SHEET_NAME \<mapsto> status_ws]"
  "[DATA_SHEET_NAME \<mapsto> articles_ws, READ_SHEET_NAME \<mapsto> status_ws] DATA_SHEET_NAME = Some articles_ws"
  "lookup_ws page_world articles_ws = Some articles_tab" "ws_title articles_ws \<noteq> ws_title status_ws"
  "\<not> frame_empty (frame_of_values (sheet_values (tab_grid articles_tab)))"
  "col_index (frame_cols (frame_of_values (sheet_values (tab_grid articles_tab)))) ''URL'' = Some 4"
  "''Read'' \<notin> set (frame_cols (frame_of_values (sheet_values (tab_grid articles_tab))))"
  "set REQUIRED_COLS \<subseteq> set (frame_cols (frame_of_values (sheet_values (tab_grid articles_tab))))"
  "distinct (map (\<lambda>r. stable_key ''readchk'' (r ! 4)) (frame_rows (frame_of_values (sheet_values (tab_grid articles_tab)))))"
  unfolding articles_frame
  by (simp_all add: status_ready_def page_world_def example_defs articles_ws_def status_ws_def
      lookup_ws_def find_tab_def status_sheet_def READ_SHEET_NAME_def DATA_SHEET_NAME_def
      status_wf_def status_header_def frame_empty_def articles_tab_def,
      simp_all add: REQUIRED_COLS_def DATA_SHEET_NAME_def READ_SHEET_NAME_def)

lemma toggle_reload_load:
  assumes "status_ready w SHEET_ID h t" "status_wf (tab_grid t)" "faults w = []"
    "wsmap_cache w SHEET_ID = Some m" "m DATA_SHEET_NAME = Some ha" "lookup_ws w ha = Some ta"
    "ws_title ha \<noteq> ws_title h"
    "\<not> frame_empty (frame_of_values (sheet_values (tab_grid ta)))"
    "col_index (frame_cols (frame_of_values (sheet_values (tab_grid ta)))) ''URL'' = Some ui"
    "''Read'' \<notin> set (frame_cols (frame_of_values (sheet_values (tab_grid ta))))"
    "on_toggle session chk k w = (r, w1)"
  shows "r = Inr () \<and> (\<exists>w2. load_articles w1 =
    (Inr (Some (frame_cols (frame_of_values (sheet_values (tab_grid ta))),
       map (\<lambda>r. \<lparr>art_row = r, art_key = r ! ui,
             art_read = read_flag ((status_view (tab_grid t))(k \<mapsto> (case session chk of Some b \<Rightarrow> b | None \<Rightarrow> False))) (r ! ui),
             art_date = row_date (frame_cols (frame_of_values (sheet_values (tab_grid ta)))) r\<rparr>)
         (frame_rows (frame_of_values (sheet_values (tab_grid ta)))))), w2))"
proof -
  let ?b = "case session chk of Some b \<Rightarrow> b | None \<Rightarrow> False"
  let ?df = "frame_of_values (sheet_values (tab_grid ta))"
  have up: "upsert_read_status SHEET_ID k ?b (sleep DEBOUNCE_MS w) = (r, w1)"
    using assms(11) by (simp add: on_toggle_def)
  obtain t' where e: "r = Inr ()" "faults w1 = []" "data_cache w1 = Map.empty"
      "wsmap_cache w1 = wsmap_cache w" "lookup_ws w1 ha = lookup_ws w ha"
      "status_ready w1 SHEET_ID h t'" "status_wf (tab_grid t')"
      "status_view (tab_grid t') = (status_view (tab_grid t))(k \<mapsto> ?b)"
    using upsert_effect [where h = h, OF _ _ assms(2) up] assms(1,3,7) by auto
  have mh: "m READ_SHEET_NAME = Some h" "lookup_ws w1 h = Some t'"
    using e(4,6) assms(4) by (auto simp: status_ready_def READ_SHEET_NAME_def status_sheet_def)
  let ?w1a = "w1\<lparr>calls := calls w1 @ [GetAllValues ha],
                 data_cache := (data_cache w1)((SHEET_ID, DATA_SHEET_NAME) \<mapsto> (?df, clock w1))\<rparr>"
  have rd1: "read_sheet_to_df SHEET_ID DATA_SHEET_NAME w1 = (Inr ?df, ?w1a)"
    using read_miss_eq [of w1 SHEET_ID DATA_SHEET_NAME m ha ta] e assms(4-6)
    by (simp add: cache_fresh_def)
  have rd2: "read_sheet_to_df SHEET_ID READ_SHEET_NAME ?w1a =
    (Inr (frame_of_values (sheet_values (tab_grid t'))),
     ?w1a\<lparr>calls := calls ?w1a @ [GetAllValues h],
       data_cache := (data_cache ?w1a)((SHEET_ID, READ_SHEET_NAME) \<mapsto> (frame_of_values (sheet_values (tab_grid t')), clock ?w1a))\<rparr>)"
    using read_miss_eq [of ?w1a SHEET_ID READ_SHEET_NAME m h t'] e mh assms(4)
    by (simp add: cache_fresh_def DATA_SHEET_NAME_def READ_SHEET_NAME_def)
  have sm: "status_map (frame_of_values (sheet_values (tab_grid t'))) = Inr ((status_view (tab_grid t))(k \<mapsto> ?b))"
    using status_map_wf [OF e(7)] e(8) by simp
  show ?thesis
    using e(1) rd1 rd2 sm assms(8-10) by (simp add: load_articles_def)
qed

text \<open>
  C3. The page and the data layer together: when the checkbox of article \<open>k\<close> is
  toggled, \<open>on_toggle\<close> succeeds, and the next \<open>load_articles\<close> goes to the sheets (the
  upsert cleared the cache) and returns every row of the Articles sheet, the toggled
  article with the checkbox's value and every other article with the flag it had.
\<close>

theorem toggle_then_reload:
  assumes "status_ready w SHEET_ID h t" "status_wf (tab_grid t)" "faults w = []"
    "wsmap_cache w SHEET_ID = Some m" "m DATA_SHEET_NAME = Some ha" "lookup_ws w ha = Some ta"
    "ws_title ha \<noteq> ws_title h"
    "\<not> frame_empty (frame_of_values (sheet_values (tab_grid ta)))"
    "col_index (frame_cols (frame_of_values (sheet_values (tab_grid ta)))) ''URL'' = Some ui"
    "''Read'' \<notin> set (frame_cols (frame_of_values (sheet_values (tab_grid ta))))"
    "on_toggle session chk k w = (r, w1)" "load_articles w1 = (r2, w2)"
  shows "r = Inr () \<and>
    (\<exists>arts. r2 = Inr (Some (frame_cols (frame_of_values (sheet_values (tab_grid ta))), arts))
      \<and> map art_row arts = frame_rows (frame_of_values (sheet_values (tab_grid ta)))
      \<and> (\<forall>a \<in> set arts. art_key a = art_row a ! ui \<and> art_read a =
           (if art_key a = k then (case session chk of Some b \<Rightarrow> b | None \<Rightarrow> False)
            else read_flag (status_view (tab_grid t)) (art_key a))))"
  using toggle_reload_load [OF assms(1-11)] assms(12) by (auto simp: read_flag_upd comp_def)

text \<open>
  C38. A whole run of the page after a checkbox is ticked: when the reader has ticked
  article \<open>k\<close> and the Articles sheet has the required columns, the next run of the
  script (\<open>app_run\<close>: load the articles, then the page) with the filter "unread only"
  renders a page, and that page shows neither \<open>k\<close> nor any article the ReadStatus
  sheet marked as read.  The run renders provided the sheet's URLs have distinct
  checkbox keys (C33) and the search box is empty or holds a term the regular-expression
  engine compiles (C9); it holds for every engine and every argsort keeping numpy's
  promise.
\<close>

theorem toggle_hides_from_unread:
  assumes "status_ready w SHEET_ID h t" "status_wf (tab_grid t)" "faults w = []"
    "wsmap_cache w SHEET_ID = Some m" "m DATA_SHEET_NAME = Some ha" "lookup_ws w ha = Some ta"
    "ws_title ha \<noteq> ws_title h"
    "\<not> frame_empty (frame_of_values (sheet_values (tab_grid ta)))"
    "col_index (frame_cols (frame_of_values (sheet_values (tab_grid ta)))) ''URL'' = Some ui"
    "''Read'' \<notin> set (frame_cols (frame_of_values (sheet_values (tab_grid ta))))"
    "set REQUIRED_COLS \<subseteq> set (frame_cols (frame_of_values (sheet_values (tab_grid ta))))"
    "session chk = Some True" "on_toggle session chk k w = (r, w1)"
    "in_status inp = 1" "app_run lib inp u w1 = (r2, w2)"
    "distinct (map (\<lambda>r. stable_key ''readchk'' (r ! ui)) (frame_rows (frame_of_values (sheet_values (tab_grid ta)))))"
    "argsort_ok (np_argsort lib)" "in_search inp = [] \<or> (\<exists>m. re_compile_ic lib (in_search inp) = Inr m)"
  shows "\<exists>rows u'. r2 = Inr (Some (rows, u'))
    \<and> (\<forall>v \<in> set rows. rv_item v \<noteq> k \<and> \<not> rv_checked v
          \<and> \<not> read_flag (status_view (tab_grid t)) (rv_item v))"
proof -
  let ?df = "frame_of_values (sheet_values (tab_grid ta))"
  let ?arts = "map (\<lambda>r. \<lparr>art_row = r, art_key = r ! ui,
                  art_read = read_flag ((status_view (tab_grid t))(k \<mapsto> True)) (r ! ui),
                  art_date = row_date (frame_cols ?df) r\<rparr>) (frame_rows ?df)"
  obtain w1' where ld: "load_articles w1 = (Inr (Some (frame_cols ?df, ?arts)), w1')"
    using toggle_reload_load [OF assms(1-10) assms(13)] assms(12) by auto
  have cols: "''Category (20-class)'' \<in> set (frame_cols ?df)" "''Date'' \<in> set (frame_cols ?df)"
    "''Title'' \<in> set (frame_cols ?df)" "''Subtitle'' \<in> set (frame_cols ?df)"
    "set [''Title'', ''Subtitle'', ''Date'', ''Author'', ''URL''] \<subseteq> set (frame_cols ?df)"
    using assms(11) by (simp_all add: REQUIRED_COLS_def)
  obtain ci di ti si where ci: "col_index (frame_cols ?df) ''Category (20-class)'' = Some ci"
    and di: "col_index (frame_cols ?df) ''Date'' = Some di"
    and ti: "col_index (frame_cols ?df) ''Title'' = Some ti"
    and si: "col_index (frame_cols ?df) ''Subtitle'' = Some si"
    using col_index_Some [OF cols(1)] col_index_Some [OF cols(2)] col_index_Some [OF cols(3)]
      col_index_Some [OF cols(4)] by blast
  obtain m where "in_search inp \<noteq> [] \<Longrightarrow> re_compile_ic lib (in_search inp) = Inr m"
    using assms(18) by blast
  then have "\<exists>shown u'. main_view lib (frame_cols ?df) ?arts inp u = Inr (shown, u')"
    by (intro main_view_total [OF ci di]) (simp add: ti si)
  then obtain shown u' where mv: "main_view lib (frame_cols ?df) ?arts inp u = Inr (shown, u')"
    by blast
  have "map chk_key ?arts = map (\<lambda>r. stable_key ''readchk'' (r ! ui)) (frame_rows ?df)"
    unfolding map_map comp_def chk_key_def by simp
  with assms(16) have "distinct (map chk_key ?arts)" by (simp only:)
  then have dk: "distinct (map chk_key shown)" by (rule main_view_distinct [OF mv assms(17)])
  from render_rows_Inr [OF cols(5) dk] obtain rows where rr: "render_rows (frame_cols ?df) shown = Inr rows"
    and rows0: "\<forall>v \<in> set rows. \<exists>a \<in> set shown. rv_item v = art_key a \<and> rv_checked v = art_read a
          \<and> rv_dim v = art_read a \<and> rv_date v = date_str (art_date a) \<and> rv_chk_key v = chk_key a"
    by blast
  have rows: "\<forall>v \<in> set rows. \<exists>a \<in> set shown. rv_item v = art_key a \<and> rv_checked v = art_read a"
    using rows0 by fast
  have r2: "r2 = Inr (Some (rows, u'))"
    using assms(15) ld mv rr by (simp add: app_run_def)
  obtain ci' sel where sub: "set shown \<subseteq> set (status_filter (status_options ?arts ! 1) (category_filter ci' sel ?arts))"
    using main_view_subset [OF mv assms(17)] assms(14) by auto
  have "art_key a \<noteq> k \<and> \<not> art_read a \<and> \<not> read_flag (status_view (tab_grid t)) (art_key a)"
    if "a \<in> set shown" for a
  proof -
    have "a \<in> set (category_filter ci' sel ?arts) \<and> \<not> art_read a"
      using status_filter_options [of a ?arts 1] sub that by auto
    then have "a \<in> set ?arts" "\<not> art_read a" by (auto simp: category_filter_def split: if_splits)
    then show ?thesis by (auto simp: read_flag_upd split: if_splits)
  qed
  with r2 rows show ?thesis by fastforce
qed

theorem toggle_then_reload_witness:
  "fst (on_toggle [''chk'' \<mapsto> True] ''chk'' ''http://a'' page_world) = Inr ()
   \<and> (\<exists>arts. fst (load_articles (snd (on_toggle [''chk'' \<mapsto> True] ''chk'' ''http://a'' page_world)))
         = Inr (Some (REQUIRED_COLS, arts))
       \<and> map art_row arts = [[''2025-01-02'', ''Ann'', ''On RAG'', ''Notes'', ''http://a'', ''AI Algorithm'']]
       \<and> (\<forall>a \<in> set arts. art_read a))"
proof -
  let ?row = "[''2025-01-02'', ''Ann'', ''On RAG'', ''Notes'', ''http://a'', ''AI Algorithm'']"
  let ?w1 = "snd (on_toggle [''chk'' \<mapsto> True] ''chk'' ''http://a'' page_world)"
  from toggle_then_reload [where session = "[''chk'' \<mapsto> True]" and chk = "''chk''" and k = "''http://a''",
      OF page_world_ready(1-10) surjective_pairing surjective_pairing]
  obtain arts where r: "fst (on_toggle [''chk'' \<mapsto> True] ''chk'' ''http://a'' page_world) = Inr ()"
    and A: "fst (load_articles ?w1) = Inr (Some (REQUIRED_COLS, arts))" "map art_row arts = [?row]"
      "\<forall>a \<in> set arts. art_key a = art_row a ! 4 \<and> art_read a =
         (if art_key a = ''http://a'' then True else read_flag (status_view (tab_grid example_tab)) (art_key a))"
    by (auto simp: articles_frame)
  have "\<forall>a \<in> set arts. art_read a"
  proof
    fix a assume "a \<in> set arts"
    then have "art_row a \<in> set (map art_row arts)" by simp
    with A(2) have "art_row a = ?row" by simp
    with A(3) \<open>a \<in> set arts\<close> show "art_read a" by simp
  qed
  then show ?thesis using r A(1,2) by (intro conjI exI [of _ arts]) simp_all
qed

theorem toggle_hides_from_unread_witness:
  "\<exists>rows u'. fst (app_run example_lib
       \<lparr>in_status = 1, in_ai_all = False, in_nonai_all = False, in_search = [], in_click = None\<rparr>
       \<lparr>checks = Map.empty, page = None, last_search = None, last_selected = None, last_status = None\<rparr>
       (snd (on_toggle [''chk'' \<mapsto> True] ''chk'' ''http://a'' page_world)))
     = Inr (Some (rows, u'))
   \<and> ''http://a'' \<notin> rv_item ` set rows"
proof -
  have hyp: "[''chk'' \<mapsto> True] ''chk'' = Some True"
    "in_status \<lparr>in_status = 1, in_ai_all = False, in_nonai_all = False, in_search = [], in_click = None\<rparr> = 1"
    "argsort_ok (np_argsort example_lib)"
    "in_search \<lparr>in_status = 1, in_ai_all = False, in_nonai_all = False, in_search = [], in_click = None\<rparr> = []
     \<or> (\<exists>m. re_compile_ic example_lib
          (in_search \<lparr>in_status = 1, in_ai_all = False, in_nonai_all = False, in_search = [], in_click = None\<rparr>) = Inr m)"
    by (simp_all add: example_lib_def argsort_ok_stable)
  from toggle_hides_from_unread [where session = "[''chk'' \<mapsto> True]" and chk = "''chk''" and k = "''http://a''"
      and inp = "\<lparr>in_status = 1, in_ai_all = False, in_nonai_all = False, in_search = [], in_click = None\<rparr>"
      and u = "\<lparr>checks = Map.empty, page = None, last_search = None, last_selected = None, last_status = None\<rparr>"
      and lib = example_lib,
      OF page_world_ready(1-11) hyp(1) surjective_pairing hyp(2) surjective_pairing page_world_ready(12) hyp(3,4)]
  obtain rows u' where eqn:
    "fst (app_run example_lib \<lparr>in_status = 1, in_ai_all = False, in_nonai_all = False, in_search = [], in_click = None\<rparr>
       \<lparr>checks = Map.empty, page = None, last_search = None, last_selected = None, last_status = None\<rparr>
       (snd (on_toggle [''chk'' \<mapsto> True] ''chk'' ''http://a'' page_world))) = Inr (Some (rows, u'))"
    and nk: "\<forall>v \<in> set rows. rv_item v \<noteq> ''http://a''"
    by blast
  show ?thesis
    apply (rule exI [of _ rows], rule exI [of _ u'], rule conjI, rule eqn)
    using nk by (auto simp: image_iff)
qed

end

